theory Spec2Isabelle
  imports Main "HOL-Library.Sublist"
begin

section \<open>The documentation builder (builder.py)\<close>

text \<open>
  A shallow embedding of \<^verbatim>\<open>ubuntudesign/documentation_builder/builder.py\<close>.
  Python strings are \<^typ>\<open>string\<close>; exceptions are values of \<open>error\<close>, and a function
  that may raise returns a sum; the \<^verbatim>\<open>Builder\<close> object is a record. The file system
  (the text of the files, the directories) and the two output streams are a state
  record that every method with an effect takes and returns. What the libraries compute
  (python-frontmatter, Markdown, YAML, \<^verbatim>\<open>glob\<close>, the working directory) is a record of
  functions; \<^verbatim>\<open>re.sub\<close> for the two patterns of the builder, \<^verbatim>\<open>str.replace\<close> and the
  functions of \<^verbatim>\<open>os.path\<close> are written out.
\<close>

subsection \<open>Exceptions\<close>

datatype error =
    ScannerError
  | ParserError
  | ValueError
  | FileNotFoundError
  | NotADirectoryError
  | FileExistsError
  | IsADirectoryError
  | OtherError string

subsection \<open>The regular expressions of the link rewriter\<close>

text \<open>
  \<^verbatim>\<open>re.sub(r'(href="(?! *http).*)\.md', repl, html_document)\<close>, written out.

  The negative lookahead \<^verbatim>\<open>(?! *http)\<close> fails exactly when, after any number of
  spaces, the text goes on with \<^verbatim>\<open>http\<close> (no shorter run of spaces can be followed by
  \<^verbatim>\<open>http\<close>, since the next character is then a space).
\<close>

definition lookahead_http :: "string \<Rightarrow> bool" where
  "lookahead_http s = prefix ''http'' (dropWhile (\<lambda>c. c = CHR '' '') s)"

text \<open>
  The greedy \<^verbatim>\<open>.*\<close> runs to the end of the line (\<^verbatim>\<open>.\<close> matches every character but
  the newline) and backtracks to the last position where \<^verbatim>\<open>\.md\<close> matches:
  \<open>last_md seg\<close> is the greatest offset in the rest of the line at which \<^verbatim>\<open>.md\<close>
  stands, if there is one.
\<close>

fun last_md :: "string \<Rightarrow> nat option" where
  "last_md [] = None"
| "last_md (c # cs) =
     (case last_md cs of
        Some k \<Rightarrow> Some (Suc k)
      | None \<Rightarrow> if prefix ''.md'' (c # cs) then Some 0 else None)"

text \<open>
  One attempt to match the pattern at the start of \<open>s\<close>: the first group and the text
  after the match.
\<close>

definition match_href_md :: "string \<Rightarrow> (string \<times> string) option" where
  \<open>match_href_md s =
     (if prefix ''href="'' s \<and> \<not> lookahead_http (drop 6 s) then
        (case last_md (takeWhile (\<lambda>c. c \<noteq> CHR ''\<newline>'') (drop 6 s)) of
           None \<Rightarrow> None
         | Some k \<Rightarrow> Some (take (6 + k) s, drop (6 + k + 3) s))
      else None)\<close>

text \<open>
  \<^verbatim>\<open>re.sub\<close> scans from the left, replaces the leftmost match by the first group
  followed by \<open>repl\<close> (the template \<^verbatim>\<open>\1\<close> or \<^verbatim>\<open>\1.html\<close>), and goes on after the
  match; where nothing matches, the character is copied.
\<close>

function re_sub_href_md :: "string \<Rightarrow> string \<Rightarrow> string" where
  "re_sub_href_md repl [] = []"
| "re_sub_href_md repl (c # cs) =
     (case match_href_md (c # cs) of
        Some (g1, rest) \<Rightarrow> g1 @ repl @ re_sub_href_md repl rest
      | None \<Rightarrow> c # re_sub_href_md repl cs)"
  by pat_completeness auto
termination
proof (relation "measure (\<lambda>(repl, s). length s)")
  show "wf (measure (\<lambda>(repl, s). length s))" by simp
next
  fix repl :: string and c cs x2 g1 rest
  assume "match_href_md (c # cs) = Some x2" and "(g1, rest) = x2"
  then have "rest = drop (6 + the (last_md (takeWhile (\<lambda>c. c \<noteq> CHR ''\<newline>'') (drop 6 (c # cs)))) + 3) (c # cs)"
    by (auto simp: match_href_md_def split: if_splits option.splits)
  then show "((repl, rest), (repl, c # cs)) \<in> measure (\<lambda>(repl, s). length s)"
    by simp
next
  fix repl :: string and c cs
  show "((repl, cs), (repl, c # cs)) \<in> measure (\<lambda>(repl, s). length s)" by simp
qed

text \<open>
  \<^verbatim>\<open>re.sub(r'\.md$', '.html', s)\<close>: \<^verbatim>\<open>$\<close> matches at the end of the string and
  just before a newline that ends the string. After a match only the empty string or
  that newline is left, where nothing matches again.
\<close>

fun re_sub_md_end :: "string \<Rightarrow> string" where
  "re_sub_md_end [] = []"
| "re_sub_md_end (c # cs) =
     (if prefix ''.md'' (c # cs) \<and> (drop 3 (c # cs) = [] \<or> drop 3 (c # cs) = [CHR ''\<newline>''])
      then ''.html'' @ drop 3 (c # cs)
      else c # re_sub_md_end cs)"

subsection \<open>\<^verbatim>\<open>str.replace\<close>\<close>

text \<open>
  \<^verbatim>\<open>s.replace(old, new)\<close> replaces the occurrences of \<open>old\<close> from the left, never
  overlapping; an empty \<open>old\<close> matches before every character and at the end.
\<close>

function py_replace :: "string \<Rightarrow> string \<Rightarrow> string \<Rightarrow> string" where
  "py_replace old new [] = (if old = [] then new else [])"
| "py_replace old new (c # cs) =
     (if old = [] then new @ c # py_replace old new cs
      else if prefix old (c # cs) then new @ py_replace old new (drop (length old) (c # cs))
      else c # py_replace old new cs)"
  by pat_completeness auto
termination
  by (relation "measure (\<lambda>(old, new, s). length s)") auto

subsection \<open>\<^verbatim>\<open>os.path\<close> (posixpath)\<close>

text \<open>\<^verbatim>\<open>s.split('/')\<close> and \<^verbatim>\<open>'/'.join(comps)\<close>.\<close>

fun split_sep :: "string \<Rightarrow> string list" where
  "split_sep [] = [[]]"
| "split_sep (c # cs) =
     (if c = CHR ''/'' then [] # split_sep cs
      else (case split_sep cs of [] \<Rightarrow> [[c]] | x # xs \<Rightarrow> (c # x) # xs))"

fun sep_join :: "string list \<Rightarrow> string" where
  "sep_join [] = []"
| "sep_join [x] = x"
| "sep_join (x # y # ys) = x @ ''/'' @ sep_join (y # ys)"

text \<open>\<^verbatim>\<open>join(a, b)\<close>, and \<^verbatim>\<open>join(*rel_list)\<close> for a list that is not empty.\<close>

definition path_join :: "string \<Rightarrow> string \<Rightarrow> string" where
  "path_join a b =
     (if prefix ''/'' b then b
      else if a = [] \<or> suffix ''/'' a then a @ b
      else a @ ''/'' @ b)"

fun join_list :: "string list \<Rightarrow> string" where
  "join_list [] = []"
| "join_list (a # p) = foldl path_join a p"

text \<open>
  \<^verbatim>\<open>basename\<close> and \<^verbatim>\<open>dirname\<close>: with \<^verbatim>\<open>i = p.rfind('/') + 1\<close>, the tail
  \<^verbatim>\<open>p[i:]\<close> is what follows the last slash and the head \<^verbatim>\<open>p[:i]\<close> is the rest;
  \<^verbatim>\<open>dirname\<close> strips the head's trailing slashes unless it consists of slashes.
\<close>

definition basename :: "string \<Rightarrow> string" where
  "basename p = rev (takeWhile (\<lambda>c. c \<noteq> CHR ''/'') (rev p))"

definition dirname :: "string \<Rightarrow> string" where
  "dirname p =
     (let head = rev (dropWhile (\<lambda>c. c \<noteq> CHR ''/'') (rev p))
      in if head \<noteq> [] \<and> head \<noteq> replicate (length head) (CHR ''/'')
         then rev (dropWhile (\<lambda>c. c = CHR ''/'') (rev head))
         else head)"

text \<open>
  \<^verbatim>\<open>normpath\<close>: one or two leading slashes are kept (three or more count as one);
  the loop over the components keeps \<open>new_comps\<close>, here the second argument.
\<close>

definition initial_slashes :: "string \<Rightarrow> nat" where
  "initial_slashes p =
     (if prefix ''/'' p then (if prefix ''//'' p \<and> \<not> prefix ''///'' p then 2 else 1) else 0)"

fun norm_comps :: "nat \<Rightarrow> string list \<Rightarrow> string list \<Rightarrow> string list" where
  "norm_comps i new_comps [] = new_comps"
| "norm_comps i new_comps (cmp # comps) =
     (if cmp = [] \<or> cmp = ''.'' then norm_comps i new_comps comps
      else if cmp \<noteq> ''..'' \<or> (i = 0 \<and> new_comps = [])
              \<or> (new_comps \<noteq> [] \<and> last new_comps = ''..'')
        then norm_comps i (new_comps @ [cmp]) comps
      else if new_comps \<noteq> [] then norm_comps i (butlast new_comps) comps
      else norm_comps i new_comps comps)"

definition normpath :: "string \<Rightarrow> string" where
  "normpath p =
     (if p = [] then ''.''
      else let i = initial_slashes p;
               r = replicate i (CHR ''/'') @ sep_join (norm_comps i [] (split_sep p))
           in if r = [] then ''.'' else r)"

text \<open>\<^verbatim>\<open>abspath\<close>, with \<^verbatim>\<open>os.getcwd()\<close> as the argument \<open>cwd\<close>.\<close>

definition abspath :: "string \<Rightarrow> string \<Rightarrow> string" where
  "abspath cwd p = normpath (if prefix ''/'' p then p else path_join cwd p)"

text \<open>
  \<^verbatim>\<open>commonprefix([start_list, path_list])\<close>: of two lists, the longest list that
  starts both. \<open>path_list cwd p\<close> is \<^verbatim>\<open>[x for x in abspath(p).split(sep) if x]\<close>, and
  \<^verbatim>\<open>relpath\<close> raises on an empty path.
\<close>

fun commonprefix :: "string list \<Rightarrow> string list \<Rightarrow> string list" where
  "commonprefix (x # xs) (y # ys) = (if x = y then x # commonprefix xs ys else [])"
| "commonprefix _ _ = []"

definition path_list :: "string \<Rightarrow> string \<Rightarrow> string list" where
  "path_list cwd p = filter (\<lambda>x. x \<noteq> []) (split_sep (abspath cwd p))"

definition relpath :: "string \<Rightarrow> string \<Rightarrow> string \<Rightarrow> error + string" where
  "relpath cwd p start =
     (if p = [] then Inl ValueError
      else let start_list = path_list cwd start;
               path_list' = path_list cwd p;
               i = length (commonprefix start_list path_list');
               rel_list = replicate (length start_list - i) ''..'' @ drop i path_list'
           in Inr (if rel_list = [] then ''.'' else join_list rel_list))"

subsection \<open>Metadata and template contexts\<close>

text \<open>
  The values YAML and the Markdown meta extension produce, and a dictionary with string
  keys. \<^verbatim>\<open>d.update(e)\<close> is \<open>d ++ e\<close>.
\<close>

datatype yval =
    YNull
  | YBool bool
  | YInt int
  | YStr string
  | YList "yval list"
  | YMap "(string \<times> yval) list"

type_synonym dict = "string \<rightharpoonup> yval"

subsection \<open>The outside world\<close>

text \<open>
  The file system the build reads and writes, with the two output streams:
  the text of every regular file by its path, the directories, and the lines printed.
  A path names a file or a directory by its spelling, the one the program passes to
  \<^verbatim>\<open>open\<close>, \<^verbatim>\<open>isdir\<close> and \<^verbatim>\<open>makedirs\<close>: two spellings of one place (\<^verbatim>\<open>a/b\<close>,
  \<^verbatim>\<open>a//b\<close>, \<^verbatim>\<open>a/./b\<close>) are two paths of the state, and a statement that needs a
  place to have one spelling says so. Links and permissions are not part of the state.
\<close>

record fs =
  files :: "string \<rightharpoonup> string"
  dirs :: "string set"
  stdout :: "string list"
  stderr :: "string list"

text \<open>
  What the build takes from its libraries: the working directory, python-frontmatter
  on a file's text (the metadata and the body, or the exception raised), the Markdown
  converter with the fixed extension list (the HTML, and the \<^verbatim>\<open>Meta\<close> attribute when
  the parser has one), the mapping that \<^verbatim>\<open>local_context.update(yaml.load(f))\<close> merges
  for a file's text (or the exception raised), and the paths \<^verbatim>\<open>iglob\<close> yields for a
  pattern, in its order.
\<close>

record env =
  cwd :: string
  frontmatter_loads :: "string \<Rightarrow> error + (dict \<times> string)"
  markdown_convert :: "string \<Rightarrow> string \<times> dict option"
  yaml_load :: "string \<Rightarrow> error + dict"
  iglob :: "string \<Rightarrow> string list"

definition print :: "string \<Rightarrow> fs \<Rightarrow> fs" where
  "print line st = st\<lparr>stdout := stdout st @ [line]\<rparr>"

definition print_err :: "string \<Rightarrow> fs \<Rightarrow> fs" where
  "print_err line st = st\<lparr>stderr := stderr st @ [line]\<rparr>"

text \<open>\<^verbatim>\<open>path.isdir\<close>: the empty path is no directory.\<close>

definition isdir :: "fs \<Rightarrow> string \<Rightarrow> bool" where
  "isdir st p = (p \<noteq> [] \<and> p \<in> dirs st)"

text \<open>
  A name with slashes at its end names what the name without them names, and a name of
  slashes only is the root. \<open>dirs_above p\<close> are the directories on the way to \<open>p\<close>, the
  nearest first: \<^verbatim>\<open>dirname(p)\<close>, its \<^verbatim>\<open>dirname\<close>, and so on, as long as there is one.
\<close>

definition rstrip_sep :: "string \<Rightarrow> string" where
  "rstrip_sep p =
     (if p = replicate (length p) (CHR ''/'') then p
      else rev (dropWhile (\<lambda>c. c = CHR ''/'') (rev p)))"

function dirs_above :: "string \<Rightarrow> string list" where
  "dirs_above p = (let d = dirname p in if d = [] \<or> d = p then [] else d # dirs_above d)"
  by pat_completeness auto
termination
proof (relation "measure length")
  show "wf (measure length)" by simp
next
  fix p d :: string
  assume d: "d = dirname p" and n: "\<not> (d = [] \<or> d = p)"
  have s: "suffix (dropWhile Q xs) xs" for Q and xs :: string
    by (rule suffix_dropWhile)
  have "suffix (dropWhile (\<lambda>c. c = CHR ''/'') (dropWhile (\<lambda>c. c \<noteq> CHR ''/'') (rev p))) (rev p)"
    using s suffix_order.trans by blast
  then have "prefix (dirname p) p"
    using s[of "\<lambda>c. c \<noteq> CHR ''/''" "rev p"] by (simp add: dirname_def Let_def suffix_to_prefix)
  then have "length d < length p"
    using n d by (metis prefix_length_less prefix_order.le_neq_trans)
  then show "(d, p) \<in> measure length" by simp
qed

declare dirs_above.simps [simp del]

text \<open>
  \<^verbatim>\<open>makedirs(name, exist_ok=True)\<close> makes the directories above the leaf that are
  missing, from the top, and then the leaf. It raises \<^verbatim>\<open>FileNotFoundError\<close> for the
  empty name, \<^verbatim>\<open>NotADirectoryError\<close> when a regular file stands above the leaf, and
  \<^verbatim>\<open>FileExistsError\<close> when a regular file stands at the leaf (\<^verbatim>\<open>mkdir\<close> fails, and
  \<^verbatim>\<open>exist_ok\<close> forgives that only for a directory). A leaf that is a directory already
  is left as it is.
\<close>

definition makedirs :: "string \<Rightarrow> fs \<Rightarrow> error + fs" where
  "makedirs name st =
     (if name = [] then Inl FileNotFoundError
      else let leaf = rstrip_sep name
           in if list_ex (\<lambda>a. files st a \<noteq> None) (dirs_above leaf) then Inl NotADirectoryError
              else if files st leaf \<noteq> None then Inl FileExistsError
              else Inr (st\<lparr>dirs := dirs st \<union> set (leaf # dirs_above leaf)\<rparr>))"

text \<open>
  \<^verbatim>\<open>open(filepath, 'w')\<close> with the \<^verbatim>\<open>write\<close> of the whole text. It raises
  \<^verbatim>\<open>FileNotFoundError\<close> for the empty path and for a path in a directory that does not
  exist, \<^verbatim>\<open>NotADirectoryError\<close> when a regular file stands above the path, and
  \<^verbatim>\<open>IsADirectoryError\<close> when the path ends with a slash, with \<^verbatim>\<open>.\<close> or with \<^verbatim>\<open>..\<close>, or
  is a directory. Otherwise the file is made, or the text of the file that is there is
  replaced.
\<close>

definition open_w :: "string \<Rightarrow> string \<Rightarrow> fs \<Rightarrow> error + fs" where
  "open_w filepath content st =
     (if filepath = [] then Inl FileNotFoundError
      else let leaf = rstrip_sep filepath
           in if list_ex (\<lambda>a. files st a \<noteq> None) (dirs_above leaf) then Inl NotADirectoryError
              else if dirname leaf \<notin> {[], leaf} \<and> dirname leaf \<notin> dirs st
                then Inl FileNotFoundError
              else if basename filepath \<in> {[], ''.'', ''..''} \<or> filepath \<in> dirs st
                then Inl IsADirectoryError
              else Inr (st\<lparr>files := (files st)(filepath \<mapsto> content)\<rparr>))"

text \<open>
  Modelled from the spec: \<^verbatim>\<open>mergetree\<close> of \<^verbatim>\<open>utilities.py\<close>, which is not among the
  source files. The spec: it "recursively copies its contents to the output media
  directory (merging into any existing destination tree, not replacing it)". Every
  file below \<open>src\<close> is written at the same relative path below \<open>dst\<close>; every other file
  stays as it is; \<open>dst\<close> and the directories below \<open>src\<close> exist below \<open>dst\<close> afterwards.
\<close>

definition mergetree :: "string \<Rightarrow> string \<Rightarrow> fs \<Rightarrow> fs" where
  "mergetree src dst st =
     st\<lparr>files := (\<lambda>p. if prefix (dst @ ''/'') p
                       then (case files st (src @ ''/'' @ drop (length dst + 1) p) of
                               Some c \<Rightarrow> Some c
                             | None \<Rightarrow> files st p)
                       else files st p),
        dirs := dirs st \<union> {dst}
                \<union> (\<lambda>d. dst @ ''/'' @ drop (length src + 1) d)
                    ` {d \<in> dirs st. prefix (src @ ''/'') d}\<rparr>"

subsection \<open>\<^verbatim>\<open>parse_markdown\<close>\<close>

text \<open>
  The \<^verbatim>\<open>try\<close> block: the front matter's metadata and the body, or, on a
  \<^verbatim>\<open>ScannerError\<close> or \<^verbatim>\<open>ParserError\<close>, no metadata and the whole text. Any other
  exception is not caught.
\<close>

definition extract_frontmatter :: "env \<Rightarrow> string \<Rightarrow> error + (dict \<times> string)" where
  "extract_frontmatter E text =
     (case frontmatter_loads E text of
        Inr (metadata, markdown_content) \<Rightarrow> Inr (metadata, markdown_content)
      | Inl e \<Rightarrow> if e = ScannerError \<or> e = ParserError then Inr (Map.empty, text) else Inl e)"

text \<open>
  The loop over \<^verbatim>\<open>markdown_meta.items()\<close>: a value that is a list of one element
  becomes that element.
\<close>

fun unwrap :: "yval \<Rightarrow> yval" where
  "unwrap (YList [x]) = x"
| "unwrap v = v"

definition unwrap_meta :: "dict \<Rightarrow> dict" where
  "unwrap_meta markdown_meta = (\<lambda>name. map_option unwrap (markdown_meta name))"

definition parse_markdown :: "env \<Rightarrow> fs \<Rightarrow> string \<Rightarrow> error + (string \<times> dict)" where
  "parse_markdown E st filepath =
     (case files st filepath of
        None \<Rightarrow> Inl FileNotFoundError
      | Some text \<Rightarrow>
          (case extract_frontmatter E text of
             Inl e \<Rightarrow> Inl e
           | Inr (metadata, markdown_content) \<Rightarrow>
               (case markdown_convert E markdown_content of
                  (html_content, None) \<Rightarrow> Inr (html_content, metadata)
                | (html_content, Some markdown_meta) \<Rightarrow>
                    Inr (html_content, metadata ++ unwrap_meta markdown_meta))))"

subsection \<open>The builder\<close>

text \<open>
  The \<^verbatim>\<open>Builder\<close> object. The template is its \<^verbatim>\<open>render\<close>: from a context to the
  document, or the exception raised; \<^verbatim>\<open>media_url\<close> may be \<^verbatim>\<open>None\<close>.
\<close>

record builder =
  source_path :: string
  source_media_path :: string
  output_path :: string
  output_media_path :: string
  template :: "dict \<Rightarrow> error + string"
  media_url :: "string option"
  no_link_extensions :: bool
  ignore_files :: "string list"

definition replace_internal_links :: "builder \<Rightarrow> string \<Rightarrow> string" where
  "replace_internal_links B html_document =
     (if no_link_extensions B then re_sub_href_md [] html_document
      else re_sub_href_md ''.html'' html_document)"

text \<open>
  \<^verbatim>\<open>_replace_media_links\<close>. \<^verbatim>\<open>self.media_url or relative_media_path\<close> takes the
  relative path when the URL is \<^verbatim>\<open>None\<close> or empty.
\<close>

definition replace_media_links ::
    "builder \<Rightarrow> env \<Rightarrow> string \<Rightarrow> string \<Rightarrow> string \<Rightarrow> error + string" where
  "replace_media_links B E html_document source_filepath output_filepath =
     (case relpath (cwd E) (output_media_path B) (dirname output_filepath) of
        Inl e \<Rightarrow> Inl e
      | Inr relative_media_path \<Rightarrow>
          let media_url = (case media_url B of
                             None \<Rightarrow> relative_media_path
                           | Some u \<Rightarrow> if u = [] then relative_media_path else u)
          in (case relpath (cwd E) (source_media_path B) (dirname source_filepath) of
                Inl e \<Rightarrow> Inl e
              | Inr old_media_path \<Rightarrow> Inr (py_replace old_media_path media_url html_document)))"

text \<open>\<^verbatim>\<open>_write_file\<close>: the directory, the file, and the line printed.\<close>

definition write_file :: "string \<Rightarrow> string \<Rightarrow> fs \<Rightarrow> error + fs" where
  "write_file html_document output_filepath st =
     (case makedirs (dirname output_filepath) st of
        Inl e \<Rightarrow> Inl e
      | Inr st1 \<Rightarrow>
          (case open_w output_filepath html_document st1 of
             Inl e \<Rightarrow> Inl e
           | Inr st2 \<Rightarrow> Inr (print (''Created '' @ output_filepath) st2)))"

text \<open>
  \<^verbatim>\<open>_build_context\<close>: the loop over the context files found, with \<open>local_context\<close> as
  the last argument; \<^verbatim>\<open>startswith\<close> is \<^const>\<open>prefix\<close> on strings.
\<close>

fun build_context_loop :: "env \<Rightarrow> fs \<Rightarrow> string \<Rightarrow> string list \<Rightarrow> dict \<Rightarrow> error + dict" where
  "build_context_loop E st local_path [] local_context = Inr local_context"
| "build_context_loop E st local_path (context_filepath # rest) local_context =
     (if prefix (dirname context_filepath) local_path then
        (case files st context_filepath of
           None \<Rightarrow> Inl FileNotFoundError
         | Some text \<Rightarrow>
             (case yaml_load E text of
                Inl e \<Rightarrow> Inl e
              | Inr d \<Rightarrow> build_context_loop E st local_path rest (local_context ++ d)))
      else build_context_loop E st local_path rest local_context)"

definition build_context :: "builder \<Rightarrow> env \<Rightarrow> fs \<Rightarrow> string \<Rightarrow> error + dict" where
  "build_context B E st local_path =
     build_context_loop E st local_path
       (iglob E (source_path B @ ''/**/context.yaml'')) Map.empty"

text \<open>
  \<^verbatim>\<open>_build_html\<close>. \<open>template_context\<close> is the context as the three statements before
  \<^verbatim>\<open>render\<close> leave it.
\<close>

definition template_context :: "dict \<Rightarrow> dict \<Rightarrow> string \<Rightarrow> dict" where
  "template_context local_context metadata html_content =
     (local_context ++ metadata)(''content'' \<mapsto> YStr html_content)"

definition build_html :: "builder \<Rightarrow> env \<Rightarrow> fs \<Rightarrow> string \<Rightarrow> error + string" where
  "build_html B E st source_filepath =
     (case parse_markdown E st source_filepath of
        Inl e \<Rightarrow> Inl e
      | Inr (html_content, metadata) \<Rightarrow>
          (case build_context B E st (dirname source_filepath) of
             Inl e \<Rightarrow> Inl e
           | Inr local_context \<Rightarrow>
               (case template B (template_context local_context metadata html_content) of
                  Inl e \<Rightarrow> Inl e
                | Inr html_document \<Rightarrow> Inr (replace_internal_links B html_document))))"

definition build_file :: "builder \<Rightarrow> env \<Rightarrow> string \<Rightarrow> fs \<Rightarrow> error + fs" where
  "build_file B E source_filepath st =
     (case build_html B E st source_filepath of
        Inl e \<Rightarrow> Inl e
      | Inr html_document \<Rightarrow>
          (case relpath (cwd E) source_filepath (source_path B) of
             Inl e \<Rightarrow> Inl e
           | Inr local_path \<Rightarrow>
               let output_filepath = re_sub_md_end (path_join (output_path B) local_path)
               in (case replace_media_links B E html_document source_filepath output_filepath of
                     Inl e \<Rightarrow> Inl e
                   | Inr html_document' \<Rightarrow> write_file html_document' output_filepath st)))"

text \<open>\<^verbatim>\<open>_build_files\<close>: the loop over the Markdown files found.\<close>

fun build_files_loop :: "builder \<Rightarrow> env \<Rightarrow> string list \<Rightarrow> fs \<Rightarrow> error + fs" where
  "build_files_loop B E [] st = Inr st"
| "build_files_loop B E (filepath # rest) st =
     (if basename filepath \<in> set (ignore_files B)
      then build_files_loop B E rest (print (''Ignored '' @ filepath) st)
      else (case build_file B E filepath st of
              Inl e \<Rightarrow> Inl e
            | Inr st' \<Rightarrow> build_files_loop B E rest st'))"

definition build_files :: "builder \<Rightarrow> env \<Rightarrow> fs \<Rightarrow> error + fs" where
  "build_files B E st =
     build_files_loop B E (iglob E (path_join (source_path B) ''**/*.md'')) st"

text \<open>\<^verbatim>\<open>_copy_media\<close> and the entry point \<^verbatim>\<open>Builder.build\<close>.\<close>

definition copy_media :: "builder \<Rightarrow> env \<Rightarrow> fs \<Rightarrow> error + fs" where
  "copy_media B E st =
     (if isdir st (source_media_path B) then
        (case relpath (cwd E) (source_media_path B) (output_media_path B) of
           Inl e \<Rightarrow> Inl e
         | Inr r \<Rightarrow>
             let media_paths_match = (r = ''.'')
             in if \<not> media_paths_match
                then Inr (print (''Copied '' @ source_media_path B @ '' to '' @ output_media_path B)
                            (mergetree (source_media_path B) (output_media_path B) st))
                else Inr st)
      else Inr (print_err (''Warning: Media directory not found at ''
                            @ source_media_path B @ ''.'') st))"

definition build :: "builder \<Rightarrow> env \<Rightarrow> fs \<Rightarrow> error + fs" where
  "build B E st =
     (case copy_media B E st of
        Inl e \<Rightarrow> Inl e
      | Inr st' \<Rightarrow> build_files B E st')"

subsection \<open>Predicates of the statements\<close>

text \<open>
  A name as a directory listing gives it: not empty, not \<^verbatim>\<open>.\<close> or \<^verbatim>\<open>..\<close>, without a
  slash. \<open>comp_ok\<close> is what \<^const>\<open>normpath\<close> leaves of a component: it may be \<^verbatim>\<open>..\<close>.
\<close>

definition name_ok :: "string \<Rightarrow> bool" where
  "name_ok c = (c \<noteq> [] \<and> c \<noteq> ''.'' \<and> c \<noteq> ''..'' \<and> CHR ''/'' \<notin> set c)"

definition comp_ok :: "string \<Rightarrow> bool" where
  "comp_ok c = (c \<noteq> [] \<and> c \<noteq> ''.'' \<and> CHR ''/'' \<notin> set c)"

text \<open>The path \<^const>\<open>abspath\<close> normalises.\<close>

definition abs_arg :: "string \<Rightarrow> string \<Rightarrow> string" where
  "abs_arg wd p = (if prefix ''/'' p then p else path_join wd p)"

text \<open>
  A state that is a file system, at a path it lists: the directories above the path are
  directories of the state and no regular files, and the path is not both a directory
  and a regular file. Two paths are the same place when \<^const>\<open>abspath\<close> gives them
  the same normal form.
\<close>

definition tree_ok :: "fs \<Rightarrow> string \<Rightarrow> bool" where
  "tree_ok st p =
     (list_all (\<lambda>a. a \<in> dirs st \<and> files st a = None) (dirs_above p)
      \<and> \<not> (p \<in> dirs st \<and> files st p \<noteq> None))"

definition same_place :: "env \<Rightarrow> string \<Rightarrow> string \<Rightarrow> bool" where
  "same_place E p q = (abspath (cwd E) p = abspath (cwd E) q)"

subsection \<open>Concrete inputs\<close>

text \<open>
  A small documentation tree: two Markdown files (one of them on the ignore list), a
  \<^verbatim>\<open>context.yaml\<close> at the root and one in the directory \<^verbatim>\<open>docs/a\<close>, next to the
  directory \<^verbatim>\<open>docs/ab\<close> of the page, and a media directory.
\<close>

definition example_builder :: builder where
  "example_builder =
     \<lparr>source_path = ''docs'', source_media_path = ''docs/media'',
      output_path = ''build'', output_media_path = ''build/static'',
      template = (\<lambda>context. case context ''content'' of
                     Some (YStr html) \<Rightarrow> Inr (''<html>'' @ html @ ''</html>'')
                   | _ \<Rightarrow> Inl (OtherError ''content'')),
      media_url = None, no_link_extensions = False, ignore_files = [''README.md'']\<rparr>"

definition example_env :: env where
  "example_env =
     \<lparr>cwd = ''/w'',
      frontmatter_loads = (\<lambda>text. Inr (Map.empty, text)),
      markdown_convert = (\<lambda>text. (''<p>'' @ text @ ''</p>'', Some Map.empty)),
      yaml_load = (\<lambda>text. if text = ''site: docs'' then Inr [''site'' \<mapsto> YStr ''docs'']
                         else if text = ''section: a'' then Inr [''section'' \<mapsto> YStr ''a'']
                         else Inr Map.empty),
      iglob = (\<lambda>pattern. if pattern = ''docs/**/*.md'' then [''docs/README.md'', ''docs/ab/page.md'']
                          else if pattern = ''docs/**/context.yaml''
                               then [''docs/context.yaml'', ''docs/a/context.yaml'']
                          else [])\<rparr>"

definition example_fs :: fs where
  "example_fs =
     \<lparr>files = [''docs/README.md'' \<mapsto> ''readme'',
               ''docs/ab/page.md'' \<mapsto> ''see ../media/logo.png'',
               ''docs/context.yaml'' \<mapsto> ''site: docs'',
               ''docs/a/context.yaml'' \<mapsto> ''section: a'',
               ''docs/media/logo.png'' \<mapsto> ''PNG''],
      dirs = {''docs'', ''docs/a'', ''docs/ab'', ''docs/media''},
      stdout = [], stderr = []\<rparr>"

text \<open>
  A page whose front matter the YAML scanner refuses while the Markdown meta extension
  reads its \<^verbatim>\<open>Title:\<close> line; the same page with front matter and meta data that
  collide; a page whose front matter sets \<^verbatim>\<open>content\<close> and \<^verbatim>\<open>site\<close>, and a template
  that shows both.
\<close>

definition md_env :: env where
  "md_env = \<lparr>cwd = ''/w'',
       frontmatter_loads = (\<lambda>text. Inl ScannerError),
       markdown_convert = (\<lambda>text. (''<p>body</p>'', Some [''title'' \<mapsto> YList [YStr ''Doc'']])),
       yaml_load = (\<lambda>text. Inr Map.empty),
       iglob = (\<lambda>pattern. [])\<rparr>"

definition md_fs :: fs where
  "md_fs = \<lparr>files = [''docs/page.md'' \<mapsto> ''Title: Doc\<newline>---\<newline>a: b: c\<newline>---\<newline>body''],
       dirs = {''docs''}, stdout = [], stderr = []\<rparr>"

definition meta_env :: env where
  "meta_env =
     md_env\<lparr>frontmatter_loads :=
              (\<lambda>text. Inr ([''title'' \<mapsto> YStr ''Front'', ''author'' \<mapsto> YStr ''A''], ''body'')),
            markdown_convert :=
              (\<lambda>text. (''<p>body</p>'',
                        Some [''title'' \<mapsto> YList [YStr ''Meta''],
                              ''tags'' \<mapsto> YList [YStr ''x'', YStr ''y'']]))\<rparr>"

definition shadow_env :: env where
  "shadow_env =
     example_env\<lparr>frontmatter_loads :=
       (\<lambda>text. Inr ([''content'' \<mapsto> YStr ''front'', ''site'' \<mapsto> YStr ''page''], text))\<rparr>"

definition show_site :: "dict \<Rightarrow> error + string" where
  "show_site context =
     (case (context ''site'', context ''content'') of
        (Some (YStr s), Some (YStr c)) \<Rightarrow> Inr (s @ '': '' @ c)
      | _ \<Rightarrow> Inl (OtherError ''undefined''))"

section \<open>Theorems\<close>

subsection \<open>Internal links\<close>

lemmas replace_internal_links_eval =
  replace_internal_links_def match_href_md_def lookahead_http_def

text \<open>The spec's examples: one internal link, and one external link, alone in a document.\<close>

lemma replace_internal_links_page_md:
  \<open>replace_internal_links (B\<lparr>no_link_extensions := False\<rparr>) ''<a href="page.md">''
     = ''<a href="page.html">''\<close>
  \<open>replace_internal_links (B\<lparr>no_link_extensions := True\<rparr>) ''<a href="page.md">''
     = ''<a href="page">''\<close>
  by (simp_all add: replace_internal_links_eval)

lemma replace_internal_links_http_alone:
  \<open>replace_internal_links B ''<a href="http://x.org/b.md">B</a>''
     = ''<a href="http://x.org/b.md">B</a>''\<close>
  by (simp add: replace_internal_links_eval)

text \<open>
  A document in which \<^verbatim>\<open>.md\<close> or \<^verbatim>\<open>href="\<close> does not occur is returned as it is.
\<close>

lemma last_md_absent: "\<not> sublist ''.md'' s \<Longrightarrow> last_md s = None"
proof (induction s)
  case Nil
  then show ?case by simp
next
  case (Cons c cs)
  then have "\<not> prefix ''.md'' (c # cs)" "\<not> sublist ''.md'' cs"
    by (auto simp: sublist_Cons_right)
  then show ?case using Cons.IH by simp
qed

lemma match_href_md_no_md: "\<not> sublist ''.md'' s \<Longrightarrow> match_href_md s = None"
proof -
  assume a: "\<not> sublist ''.md'' s"
  let ?seg = "takeWhile (\<lambda>c. c \<noteq> CHR ''\<newline>'') (drop 6 s)"
  have "sublist ?seg s"
    by (meson sublist_order.order_trans prefix_imp_sublist suffix_imp_sublist
          takeWhile_is_prefix suffix_drop)
  then have "\<not> sublist ''.md'' ?seg"
    using a sublist_order.order_trans by blast
  then have "last_md ?seg = None" by (rule last_md_absent)
  then show ?thesis by (simp add: match_href_md_def)
qed

lemma re_sub_href_md_no_md: "\<not> sublist ''.md'' s \<Longrightarrow> re_sub_href_md repl s = s"
proof (induction s)
  case Nil
  then show ?case by simp
next
  case (Cons c cs)
  then have "\<not> sublist ''.md'' cs" by (auto simp: sublist_Cons_right)
  then show ?case using Cons.IH match_href_md_no_md[OF Cons.prems] by simp
qed

lemma re_sub_href_md_no_href: \<open>\<not> sublist ''href="'' s \<Longrightarrow> re_sub_href_md repl s = s\<close>
proof (induction s)
  case Nil
  then show ?case by simp
next
  case (Cons c cs)
  then have \<open>\<not> prefix ''href="'' (c # cs)\<close> \<open>\<not> sublist ''href="'' cs\<close>
    by (auto simp: sublist_Cons_right)
  then have "match_href_md (c # cs) = None" "re_sub_href_md repl cs = cs"
    using Cons.IH by (auto simp: match_href_md_def)
  then show ?case by simp
qed

lemma replace_internal_links_unchanged:
  \<open>\<not> sublist ''.md'' html_document \<or> \<not> sublist ''href="'' html_document
     \<Longrightarrow> replace_internal_links B html_document = html_document\<close>
  by (auto simp: replace_internal_links_def re_sub_href_md_no_md re_sub_href_md_no_href)

lemma match_href_md_None:
  \<open>\<not> prefix ''href="'' s \<or> lookahead_http (drop 6 s) \<Longrightarrow> match_href_md s = None\<close>
  unfolding match_href_md_def by (simp only: split: if_splits) blast

lemma match_href_md_Some:
  \<open>prefix ''href="'' s \<Longrightarrow> \<not> lookahead_http (drop 6 s) \<Longrightarrow>
   last_md (takeWhile (\<lambda>c. c \<noteq> CHR ''\<newline>'') (drop 6 s)) = Some k \<Longrightarrow>
   match_href_md s = Some (take (6 + k) s, drop (6 + k + 3) s)\<close>
  unfolding match_href_md_def by (simp only: simp_thms if_True option.case)

text \<open>
  A document in which every \<^verbatim>\<open>href="\<close> goes on with \<^verbatim>\<open>http\<close> (after spaces, if any) is
  returned as it is.
\<close>

lemma re_sub_href_md_external_only:
  assumes \<open>\<forall>n. prefix ''href="'' (drop n s) \<longrightarrow> lookahead_http (drop (n + 6) s)\<close>
  shows "re_sub_href_md repl s = s"
  using assms
proof (induction s)
  case Nil
  then show ?case by simp
next
  case (Cons c cs)
  have \<open>prefix ''href="'' (drop 0 (c # cs)) \<longrightarrow> lookahead_http (drop (0 + 6) (c # cs))\<close>
    using Cons.prems by blast
  then have \<open>\<not> prefix ''href="'' (c # cs) \<or> lookahead_http (drop 6 (c # cs))\<close>
    by (simp only: drop_0 add_0) blast
  then have m: "match_href_md (c # cs) = None" by (rule match_href_md_None)
  have \<open>\<forall>n. prefix ''href="'' (drop n cs) \<longrightarrow> lookahead_http (drop (n + 6) cs)\<close>
  proof (intro allI impI)
    fix n
    assume a: \<open>prefix ''href="'' (drop n cs)\<close>
    have 1: "drop (Suc n) (c # cs) = drop n cs" by simp
    have 2: "drop (Suc n + 6) (c # cs) = drop (n + 6) cs"
      by (simp only: add_Suc drop_Suc_Cons)
    have \<open>prefix ''href="'' (drop (Suc n) (c # cs))
             \<longrightarrow> lookahead_http (drop (Suc n + 6) (c # cs))\<close>
      using Cons.prems by blast
    then show "lookahead_http (drop (n + 6) cs)"
      using a unfolding 1 2 by blast
  qed
  then have "re_sub_href_md repl cs = cs" by (rule Cons.IH)
  then show ?case using m by simp
qed

text \<open>
  What the substitution does where it matches: at the first \<^verbatim>\<open>href="\<close> of the document
  that does not go on with \<^verbatim>\<open>http\<close>, the match runs to the last \<^verbatim>\<open>.md\<close> of that line;
  this \<^verbatim>\<open>.md\<close> is replaced, everything before it is kept, whatever it holds, and the
  substitution goes on after it.
\<close>

lemma prefix_of_append_short: "prefix xs (ys @ zs) \<Longrightarrow> length xs \<le> length ys \<Longrightarrow> prefix xs ys"
  by (metis prefix_length_prefix prefixI)

lemma last_md_at:
  assumes "\<not> sublist ''.md'' t"
  shows "last_md (v @ ''.md'' @ t) = Some (length v)"
proof (induction v)
  case Nil
  have t: "last_md t = None" using assms by (rule last_md_absent)
  have "last_md (CHR ''d'' # t) = None" using t by simp
  then have "last_md (CHR ''m'' # CHR ''d'' # t) = None" by simp
  then show ?case by simp
next
  case (Cons c v)
  then show ?case by simp
qed

lemma takeWhile_line:
  "CHR ''\<newline>'' \<notin> set v \<Longrightarrow>
   takeWhile (\<lambda>c. c \<noteq> CHR ''\<newline>'') (v @ ''.md'' @ post)
     = v @ ''.md'' @ takeWhile (\<lambda>c. c \<noteq> CHR ''\<newline>'') post"
  by (induction v) auto

lemma take_drop_match:
  assumes "length h = 6" and "length e = 3"
  shows "drop 6 (h @ v @ e @ post) = v @ e @ post"
    and "take (6 + length v) (h @ v @ e @ post) = h @ v"
    and "drop (6 + length v + 3) (h @ v @ e @ post) = post"
  using assms by simp_all

lemma match_href_md_at:
  assumes "\<not> lookahead_http (v @ ''.md'' @ post)"
    and "CHR ''\<newline>'' \<notin> set v"
    and "\<not> sublist ''.md'' (takeWhile (\<lambda>c. c \<noteq> CHR ''\<newline>'') post)"
  shows \<open>match_href_md (''href="'' @ v @ ''.md'' @ post) = Some (''href="'' @ v, post)\<close>
proof -
  have h: \<open>length ''href="'' = 6\<close> "length ''.md'' = 3" by simp_all
  note td = take_drop_match[OF h, of v post]
  have l: "last_md (takeWhile (\<lambda>c. c \<noteq> CHR ''\<newline>'') (v @ ''.md'' @ post)) = Some (length v)"
    unfolding takeWhile_line[OF assms(2)] by (rule last_md_at[OF assms(3)])
  have p: \<open>prefix ''href="'' (''href="'' @ v @ ''.md'' @ post)\<close> by (rule prefixI) (rule refl)
  have \<open>match_href_md (''href="'' @ v @ ''.md'' @ post)
          = Some (take (6 + length v) (''href="'' @ v @ ''.md'' @ post),
                  drop (6 + length v + 3) (''href="'' @ v @ ''.md'' @ post))\<close>
    by (rule match_href_md_Some[OF p]) (simp_all only: td assms(1) l not_False_eq_True)
  then show ?thesis unfolding td .
qed

lemma re_sub_href_md_line:
  assumes first: \<open>\<not> sublist ''href="'' (pre @ ''href='')\<close>
    and internal: "\<not> lookahead_http (v @ ''.md'' @ post)"
    and line: "CHR ''\<newline>'' \<notin> set v"
    and last: "\<not> sublist ''.md'' (takeWhile (\<lambda>c. c \<noteq> CHR ''\<newline>'') post)"
  shows \<open>re_sub_href_md repl (pre @ ''href="'' @ v @ ''.md'' @ post)
           = pre @ ''href="'' @ v @ repl @ re_sub_href_md repl post\<close>
  using first
proof (induction pre)
  case Nil
  define s where \<open>s = ''href="'' @ v @ ''.md'' @ post\<close>
  have m: \<open>match_href_md s = Some (''href="'' @ v, post)\<close>
    unfolding s_def by (rule match_href_md_at[OF internal line last])
  have "s \<noteq> []" unfolding s_def by simp
  then obtain c cs where s: "s = c # cs" by (cases s) auto
  have \<open>re_sub_href_md repl s = (''href="'' @ v) @ repl @ re_sub_href_md repl post\<close>
    using m unfolding s by (simp only: re_sub_href_md.simps option.case prod.case)
  then show ?case unfolding s_def by (simp only: append_Nil append_assoc)
next
  case (Cons c pre)
  define rest where \<open>rest = CHR 0x22 # v @ ''.md'' @ post\<close>
  have n: \<open>\<not> sublist ''href="'' (pre @ ''href='')\<close>
    using Cons.prems by (auto simp: sublist_Cons_right)
  have e: \<open>c # pre @ ''href="'' @ v @ ''.md'' @ post = (c # pre @ ''href='') @ rest\<close>
    unfolding rest_def by simp
  have \<open>\<not> prefix ''href="'' (c # pre @ ''href="'' @ v @ ''.md'' @ post)\<close>
  proof
    assume p: \<open>prefix ''href="'' (c # pre @ ''href="'' @ v @ ''.md'' @ post)\<close>
    have \<open>length ''href="'' \<le> length (c # pre @ ''href='')\<close> by simp
    then have \<open>prefix ''href="'' (c # pre @ ''href='')\<close>
      using p unfolding e by (rule prefix_of_append_short[rotated])
    then have \<open>sublist ''href="'' ((c # pre) @ ''href='')\<close>
      by (simp only: append_Cons prefix_imp_sublist)
    then show False using Cons.prems by blast
  qed
  then have \<open>match_href_md (c # pre @ ''href="'' @ v @ ''.md'' @ post) = None\<close>
    by (intro match_href_md_None) blast
  then have \<open>re_sub_href_md repl (c # pre @ ''href="'' @ v @ ''.md'' @ post)
                = c # re_sub_href_md repl (pre @ ''href="'' @ v @ ''.md'' @ post)\<close>
    by (simp only: re_sub_href_md.simps option.case)
  then show ?case using Cons.IH[OF n] by (simp only: append_Cons)
qed

text \<open>
  C1 (the code does otherwise). The claim: every \<^verbatim>\<open>href\<close> whose value does not start with
  \<^verbatim>\<open>http\<close> and ends with \<^verbatim>\<open>.md\<close> is rewritten to end with \<^verbatim>\<open>.html\<close>. The code, on a
  line with two internal links: the greedy \<^verbatim>\<open>.*\<close> runs from the first \<^verbatim>\<open>href="\<close> to the
  last \<^verbatim>\<open>.md\<close> of the line, so only the last link is rewritten and the first one still
  ends with \<^verbatim>\<open>.md\<close>.
\<close>

theorem replace_internal_links_two_links_one_line:
  \<open>replace_internal_links (B\<lparr>no_link_extensions := False\<rparr>)
       ''<a href="a.md">A</a> <a href="b.md">B</a>''
     = ''<a href="a.md">A</a> <a href="b.html">B</a>''\<close>
  by (simp add: replace_internal_links_eval)

text \<open>
  C2 (the code does otherwise). The claim: a link whose value starts with \<^verbatim>\<open>http\<close> is
  left unchanged. The code, on a line where an internal link stands before an external
  one: the match that starts at the internal \<^verbatim>\<open>href="\<close> ends at the \<^verbatim>\<open>.md\<close> of the
  external link, which is rewritten.
\<close>

theorem replace_internal_links_http_after_internal:
  \<open>replace_internal_links (B\<lparr>no_link_extensions := False\<rparr>)
       ''<a href="a.md">A</a> <a href="http://x.org/b.md">B</a>''
     = ''<a href="a.md">A</a> <a href="http://x.org/b.html">B</a>''\<close>
  by (simp add: replace_internal_links_eval)

subsection \<open>Paths\<close>

text \<open>
  Splitting and joining at the separator, and the normalising loop: it is a fold over
  the components, and it only appends names that are neither empty nor \<^verbatim>\<open>.\<close> nor \<^verbatim>\<open>..\<close>.
\<close>

lemma split_sep_not_Nil [simp]: "split_sep s \<noteq> []"
  by (induction s) (auto split: list.splits)

lemma split_sep_no_sep: "CHR ''/'' \<notin> set s \<Longrightarrow> split_sep s = [s]"
  by (induction s) auto

lemma split_sep_append:
  "split_sep (a @ CHR ''/'' # b) = split_sep a @ split_sep b"
  by (induction a) (auto split: list.splits)

lemma split_sep_comps_no_sep: "c \<in> set (split_sep s) \<Longrightarrow> CHR ''/'' \<notin> set c"
  by (induction s arbitrary: c) (auto split: if_splits list.splits)

lemma split_sep_sep_join:
  "comps \<noteq> [] \<Longrightarrow> \<forall>c\<in>set comps. CHR ''/'' \<notin> set c \<Longrightarrow> split_sep (sep_join comps) = comps"
proof (induction comps rule: sep_join.induct)
  case 1 then show ?case by simp
next
  case (2 x) then show ?case by (simp add: split_sep_no_sep)
next
  case (3 x y ys)
  then show ?case by (simp add: split_sep_append split_sep_no_sep)
qed

lemma norm_comps_append:
  "norm_comps i acc (xs @ ys) = norm_comps i (norm_comps i acc xs) ys"
  by (induction xs arbitrary: acc) auto

lemma norm_comps_ok:
  "\<forall>c\<in>set ys. name_ok c \<Longrightarrow> norm_comps i acc ys = acc @ ys"
  by (induction ys arbitrary: acc) (auto simp: name_ok_def)

lemma norm_comps_pos: "0 < i \<Longrightarrow> norm_comps i acc xs = norm_comps 1 acc xs"
  by (induction xs arbitrary: acc) auto


lemma norm_comps_comp_ok:
  "\<forall>c\<in>set acc. comp_ok c \<Longrightarrow> \<forall>c\<in>set xs. CHR ''/'' \<notin> set c
     \<Longrightarrow> \<forall>c\<in>set (norm_comps i acc xs). comp_ok c"
proof (induction xs arbitrary: acc)
  case Nil
  then show ?case by simp
next
  case (Cons x xs)
  have b: "\<forall>c\<in>set (butlast acc). comp_ok c"
    using Cons.prems(1) by (auto dest: in_set_butlastD)
  have a: "x \<noteq> [] \<Longrightarrow> x \<noteq> ''.'' \<Longrightarrow> \<forall>c\<in>set (acc @ [x]). comp_ok c"
    using Cons.prems by (auto simp: comp_ok_def)
  show ?case
    using Cons.IH[OF b] Cons.IH[OF a] Cons.IH[OF Cons.prems(1)] Cons.prems(2)
    by auto
qed

lemma filter_split_sep_join:
  "\<forall>c\<in>set N. comp_ok c
     \<Longrightarrow> filter (\<lambda>x. x \<noteq> []) (split_sep (replicate i (CHR ''/'') @ sep_join N)) = N"
proof (induction i)
  case 0
  show ?case
  proof (cases "N = []")
    case True
    then show ?thesis by simp
  next
    case False
    with 0 have "split_sep (sep_join N) = N"
      by (intro split_sep_sep_join) (auto simp: comp_ok_def)
    moreover have "filter (\<lambda>x. x \<noteq> []) N = N"
      using 0 by (auto simp: comp_ok_def filter_id_conv)
    ultimately show ?thesis by simp
  qed
next
  case (Suc i)
  then show ?case by simp
qed

text \<open>
  With an absolute working directory, the names of a path are the result of the
  normalising loop, whatever the number of leading slashes.
\<close>

lemma abs_arg_absolute: "prefix ''/'' wd \<Longrightarrow> prefix ''/'' (abs_arg wd p)"
  by (cases wd) (auto simp: abs_arg_def path_join_def)

lemma initial_slashes_pos: "prefix ''/'' q \<Longrightarrow> 0 < initial_slashes q"
  by (simp add: initial_slashes_def)

lemma path_list_norm_comps:
  assumes "prefix ''/'' wd"
  shows "path_list wd p = norm_comps 1 [] (split_sep (abs_arg wd p))"
proof -
  let ?q = "abs_arg wd p"
  let ?i = "initial_slashes ?q"
  let ?N = "norm_comps ?i [] (split_sep ?q)"
  have q: "prefix ''/'' ?q" using assms by (rule abs_arg_absolute)
  then have i: "0 < ?i" by (rule initial_slashes_pos)
  have ne: "?q \<noteq> []" using q by auto
  have ok: "\<forall>c\<in>set ?N. comp_ok c"
    by (rule norm_comps_comp_ok) (auto dest: split_sep_comps_no_sep)
  have "normpath ?q = replicate ?i (CHR ''/'') @ sep_join ?N"
    using i ne by (cases ?i) (auto simp: normpath_def Let_def)
  then have "path_list wd p = ?N"
    using filter_split_sep_join[OF ok, of ?i]
    by (simp add: path_list_def abspath_def abs_arg_def)
  then show ?thesis using norm_comps_pos[OF i] by simp
qed

lemma path_list_comp_ok:
  assumes "prefix ''/'' wd"
  shows "\<forall>c\<in>set (path_list wd p). comp_ok c"
  unfolding path_list_norm_comps[OF assms]
  by (rule norm_comps_comp_ok) (auto dest: split_sep_comps_no_sep)


text \<open>
  \<^verbatim>\<open>relpath\<close> undoes \<^verbatim>\<open>join\<close>: the path of \<open>sp\<close> joined with names of a directory
  listing, relative to \<open>sp\<close>, is these names joined.
\<close>

lemma suffix_single: "suffix [x] a \<longleftrightarrow> a \<noteq> [] \<and> last a = x"
  by (cases a rule: rev_cases) auto

lemma sep_join_closed: "sep_join (a # p) = a @ concat (map (\<lambda>c. CHR ''/'' # c) p)"
  by (induction p arbitrary: a) auto

lemma foldl_path_join:
  "a \<noteq> [] \<Longrightarrow> last a \<noteq> CHR ''/'' \<Longrightarrow> \<forall>c\<in>set p. c \<noteq> [] \<and> CHR ''/'' \<notin> set c
     \<Longrightarrow> foldl path_join a p = a @ concat (map (\<lambda>c. CHR ''/'' # c) p)"
proof (induction p arbitrary: a)
  case Nil
  then show ?case by simp
next
  case (Cons b p)
  have b: "b \<noteq> []" "CHR ''/'' \<notin> set b" using Cons.prems by auto
  then have nb: "\<not> prefix ''/'' b" by (cases b) auto
  have pj: "path_join a b = a @ CHR ''/'' # b"
    using Cons.prems(1,2) nb by (simp add: path_join_def suffix_single)
  have "last (a @ CHR ''/'' # b) \<noteq> CHR ''/''"
    using b by (metis last_appendR last_ConsR last_in_set list.distinct(1))
  then show ?case using Cons.IH[of "a @ CHR ''/'' # b"] Cons.prems(3) pj by simp
qed

lemma join_list_sep_join:
  assumes "comps \<noteq> []" and "\<forall>c\<in>set comps. c \<noteq> [] \<and> CHR ''/'' \<notin> set c"
  shows "join_list comps = sep_join comps"
proof -
  obtain a p where c: "comps = a # p" using assms(1) by (cases comps) auto
  have "last a \<noteq> CHR ''/''" using assms(2) c by (metis last_in_set list.set_intros(1))
  then show ?thesis using assms(2) c by (simp add: foldl_path_join sep_join_closed)
qed

lemma commonprefix_append [simp]: "commonprefix xs (xs @ ys) = xs"
  by (induction xs) auto

lemma sep_join_not_absolute:
  "comps \<noteq> [] \<Longrightarrow> \<forall>c\<in>set comps. c \<noteq> [] \<and> CHR ''/'' \<notin> set c
     \<Longrightarrow> sep_join comps \<noteq> [] \<and> \<not> prefix ''/'' (sep_join comps)"
  by (cases comps; cases "hd comps") (auto simp: sep_join_closed)

lemma abs_arg_join:
  assumes "prefix ''/'' wd" and "rel \<noteq> []" and "\<not> prefix ''/'' rel"
  shows "abs_arg wd (path_join sp rel) = path_join (abs_arg wd sp) rel"
proof (cases "sp = []")
  case True
  then show ?thesis using assms by (auto simp: abs_arg_def path_join_def suffix_single)
next
  case False
  then show ?thesis using assms
    by (cases sp) (auto simp: abs_arg_def path_join_def suffix_single)
qed

lemma norm_comps_join:
  assumes q: "prefix ''/'' q" and ne: "comps \<noteq> []" and ok: "\<forall>c\<in>set comps. name_ok c"
  shows "norm_comps 1 [] (split_sep (path_join q (sep_join comps)))
           = norm_comps 1 [] (split_sep q) @ comps"
proof -
  have ok': "\<forall>c\<in>set comps. c \<noteq> [] \<and> CHR ''/'' \<notin> set c"
    using ok by (auto simp: name_ok_def)
  have rel: "sep_join comps \<noteq> []" "\<not> prefix ''/'' (sep_join comps)"
    using sep_join_not_absolute[OF ne ok'] by auto
  have sp: "split_sep (sep_join comps) = comps"
    using ne ok' by (intro split_sep_sep_join) auto
  have qne: "q \<noteq> []" using q by auto
  show ?thesis
  proof (cases "suffix ''/'' q")
    case True
    then obtain q' where q': "q = q' @ ''/''" by (auto simp: suffix_def)
    have "path_join q (sep_join comps) = q' @ CHR ''/'' # sep_join comps"
      using True rel q' by (simp add: path_join_def)
    moreover have "split_sep q = split_sep q' @ [[]]"
      using split_sep_append[of q' "[]"] q' by simp
    ultimately show ?thesis
      by (simp add: split_sep_append sp norm_comps_append norm_comps_ok[OF ok])
  next
    case False
    then have "path_join q (sep_join comps) = q @ CHR ''/'' # sep_join comps"
      using rel qne by (simp add: path_join_def)
    then show ?thesis
      by (simp add: split_sep_append sp norm_comps_append norm_comps_ok[OF ok])
  qed
qed

lemma relpath_join:
  assumes wd: "prefix ''/'' wd" and ne: "comps \<noteq> []" and ok: "\<forall>c\<in>set comps. name_ok c"
  shows "relpath wd (path_join sp (sep_join comps)) sp = Inr (sep_join comps)"
proof -
  have ok': "\<forall>c\<in>set comps. c \<noteq> [] \<and> CHR ''/'' \<notin> set c"
    using ok by (auto simp: name_ok_def)
  have rel: "sep_join comps \<noteq> []" "\<not> prefix ''/'' (sep_join comps)"
    using sep_join_not_absolute[OF ne ok'] by auto
  let ?N = "norm_comps 1 [] (split_sep (abs_arg wd sp))"
  have s: "path_list wd sp = ?N" by (rule path_list_norm_comps[OF wd])
  have "path_list wd (path_join sp (sep_join comps))
          = norm_comps 1 [] (split_sep (path_join (abs_arg wd sp) (sep_join comps)))"
    by (simp add: path_list_norm_comps[OF wd] abs_arg_join[OF wd rel])
  also have "\<dots> = ?N @ comps"
    by (rule norm_comps_join[OF abs_arg_absolute[OF wd] ne ok])
  finally have p: "path_list wd (path_join sp (sep_join comps)) = ?N @ comps" .
  have "path_join sp (sep_join comps) \<noteq> []"
    using rel by (auto simp: path_join_def)
  then show ?thesis
    using ne by (simp add: relpath_def s p Let_def join_list_sep_join[OF ne ok'])
qed


text \<open>
  \<^verbatim>\<open>relpath\<close> returns for every path that is not empty, never the empty string, and
  \<^verbatim>\<open>.\<close> exactly when the two paths have the same names.
\<close>

lemma path_join_ne: "a \<noteq> [] \<Longrightarrow> path_join a b \<noteq> []"
  by (cases b) (simp_all add: path_join_def)

lemma foldl_path_join_ne: "a \<noteq> [] \<Longrightarrow> foldl path_join a p \<noteq> []"
  by (induction p arbitrary: a) (simp_all add: path_join_ne)

lemma relpath_not_empty: "relpath wd p s = Inr r \<Longrightarrow> r \<noteq> []"
proof -
  assume a: "relpath wd p s = Inr r"
  let ?s = "path_list wd s" and ?p = "path_list wd p"
  let ?i = "length (commonprefix ?s ?p)"
  let ?rel = "replicate (length ?s - ?i) ''..'' @ drop ?i ?p"
  have r: "r = (if ?rel = [] then ''.'' else join_list ?rel)"
    using a by (auto simp: relpath_def Let_def split: if_splits)
  show ?thesis
  proof (cases "?rel = []")
    case True
    then show ?thesis using r by simp
  next
    case False
    then obtain x xs where x: "?rel = x # xs" by (cases ?rel) auto
    have "\<forall>c\<in>set ?rel. c \<noteq> []"
      by (auto simp: path_list_def dest: in_set_dropD)
    then have "x \<noteq> []" using x by (metis list.set_intros(1))
    then show ?thesis using r x False by (simp add: foldl_path_join_ne)
  qed
qed

lemma relpath_Inr: "p \<noteq> [] \<Longrightarrow> \<exists>r. relpath wd p s = Inr r"
  by (simp add: relpath_def Let_def)

lemma commonprefix_length_le:
  "length (commonprefix xs ys) \<le> length xs" "length (commonprefix xs ys) \<le> length ys"
  by (induction xs ys rule: commonprefix.induct) auto

lemma commonprefix_eq_left: "commonprefix xs ys = xs \<longleftrightarrow> prefix xs ys"
  by (induction xs ys rule: commonprefix.induct) auto

lemma commonprefix_full:
  "length (commonprefix xs ys) = length xs \<Longrightarrow> length ys \<le> length (commonprefix xs ys) \<Longrightarrow> xs = ys"
  by (induction xs ys rule: commonprefix.induct) (auto split: if_splits)

lemma sep_join_length2: "2 \<le> length cs \<Longrightarrow> \<forall>c\<in>set cs. c \<noteq> [] \<Longrightarrow> 3 \<le> length (sep_join cs)"
proof -
  assume a: "2 \<le> length cs" "\<forall>c\<in>set cs. c \<noteq> []"
  then obtain x y ys where cs: "cs = x # y # ys"
    by (cases cs; cases "tl cs") auto
  then have "x \<noteq> []" "y \<noteq> []" using a(2) by auto
  then have "1 \<le> length x" "1 \<le> length y" by (simp_all add: Suc_leI)
  then show ?thesis using cs by (simp add: sep_join_closed)
qed

lemma relpath_dot_iff:
  assumes wd: "prefix ''/'' wd" and p: "p \<noteq> []"
  shows "relpath wd p s = Inr ''.'' \<longleftrightarrow> path_list wd p = path_list wd s"
proof -
  define S where "S = path_list wd s"
  define P where "P = path_list wd p"
  define i where "i = length (commonprefix S P)"
  define rel where "rel = replicate (length S - i) ''..'' @ drop i P"
  have r: "relpath wd p s = Inr (if rel = [] then ''.'' else join_list rel)"
    using p by (simp add: relpath_def Let_def S_def P_def i_def rel_def)
  have okp: "\<forall>c\<in>set P. comp_ok c" unfolding P_def by (rule path_list_comp_ok[OF wd])
  have okrel: "c \<noteq> [] \<and> c \<noteq> ''.'' \<and> CHR ''/'' \<notin> set c" if "c \<in> set rel" for c
  proof -
    have dd: "''..'' \<noteq> [] \<and> ''..'' \<noteq> ''.'' \<and> CHR ''/'' \<notin> set ''..''" by simp
    from that have "c \<in> set (replicate (length S - i) ''..'') \<or> c \<in> set (drop i P)"
      unfolding rel_def by simp
    then consider "c = ''..''" | "c \<in> set P"
      by (meson in_set_dropD in_set_replicate)
    then show ?thesis
    proof cases
      case 1
      then show ?thesis using dd by blast
    next
      case 2
      then have "comp_ok c" using okp by blast
      then show ?thesis unfolding comp_ok_def .
    qed
  qed
  have nodot: "join_list rel \<noteq> ''.''" if ne: "rel \<noteq> []"
  proof -
    have j: "join_list rel = sep_join rel"
      using okrel by (intro join_list_sep_join[OF ne]) blast
    show ?thesis
    proof (cases "2 \<le> length rel")
      case True
      have "3 \<le> length (sep_join rel)"
        using okrel by (intro sep_join_length2[OF True]) blast
      moreover have "length (sep_join rel) = 1" if "sep_join rel = ''.''"
        using that by simp
      ultimately show ?thesis unfolding j by fastforce
    next
      case False
      then obtain x where x: "rel = [x]" using ne by (cases rel; cases "tl rel") auto
      then have "x \<noteq> ''.''" using okrel[of x] by simp
      then show ?thesis unfolding j x by simp
    qed
  qed
  have "rel = [] \<longleftrightarrow> P = S"
  proof
    assume "rel = []"
    then have "length S \<le> i" "length P \<le> i" by (simp_all add: rel_def)
    then show "P = S"
      using commonprefix_full[of S P] commonprefix_length_le(1)[of S P]
      by (simp add: i_def)
  next
    assume "P = S"
    then show "rel = []" using commonprefix_append[of S "[]"] by (simp add: rel_def i_def)
  qed
  then have "relpath wd p s = Inr ''.'' \<longleftrightarrow> P = S"
    using r nodot by (cases "rel = []") simp_all
  then show ?thesis by (simp add: P_def S_def)
qed

text \<open>
  The output path: it has a directory part when the output path is not empty, and
  replacing a final \<^verbatim>\<open>.md\<close> commutes with joining.
\<close>

lemma dirname_not_empty: "CHR ''/'' \<in> set p \<Longrightarrow> dirname p \<noteq> []"
proof -
  assume a: "CHR ''/'' \<in> set p"
  let ?head = "rev (dropWhile (\<lambda>c. c \<noteq> CHR ''/'') (rev p))"
  have h: "?head \<noteq> []" using a by (simp add: dropWhile_eq_Nil_conv)
  show ?thesis
  proof (cases "?head = replicate (length ?head) (CHR ''/'')")
    case True
    then show ?thesis using h unfolding dirname_def Let_def by simp
  next
    case False
    then have "\<exists>c\<in>set ?head. c \<noteq> CHR ''/''"
      by (metis replicate_eqI)
    then have "dropWhile (\<lambda>c. c = CHR ''/'') (rev ?head) \<noteq> []"
      by (simp add: dropWhile_eq_Nil_conv)
    then show ?thesis using False h unfolding dirname_def Let_def by simp
  qed
qed

lemma path_join_has_sep: "a \<noteq> [] \<Longrightarrow> \<not> prefix ''/'' b \<Longrightarrow> CHR ''/'' \<in> set (path_join a b)"
  by (auto simp: path_join_def suffix_def)

lemma drop3_ext:
  "drop 3 (c # x @ ''.md'') \<noteq> [] \<and> drop 3 (c # x @ ''.md'') \<noteq> [CHR ''\<newline>'']"
proof (intro conjI notI)
  have l: "length (drop 3 (c # x @ ''.md'')) = Suc (length x)" by simp
  {
    assume e: "drop 3 (c # x @ ''.md'') = []"
    have "length (drop 3 (c # x @ ''.md'')) = 0" by (simp only: e list.size)
    with l show False by simp
  next
    assume e: "drop 3 (c # x @ ''.md'') = [CHR ''\<newline>'']"
    have "length (drop 3 (c # x @ ''.md'')) = 1" by (simp only: e list.size One_nat_def)
    with l have "x = []" by simp
    with e show False by simp
  }
qed

lemma re_sub_md_end_ext: "re_sub_md_end (x @ ''.md'') = x @ ''.html''"
proof (induction x)
  case Nil
  then show ?case by simp
next
  case (Cons c x)
  have "re_sub_md_end ((c # x) @ ''.md'') = c # re_sub_md_end (x @ ''.md'')"
    using drop3_ext[of c x] by (simp only: append_Cons re_sub_md_end.simps) simp
  then show ?case using Cons.IH by simp
qed

lemma sep_join_snoc_ext: "sep_join (ds @ [a @ b]) = sep_join (ds @ [a]) @ b"
  by (cases ds) (simp_all add: sep_join_closed)

lemma path_join_ext: "\<not> prefix ''/'' b \<Longrightarrow> \<not> prefix ''/'' (r @ b) \<Longrightarrow> path_join a (r @ b) = path_join a r @ b"
  by (cases r) (auto simp: path_join_def)

subsection \<open>Substring replacement\<close>

text \<open>
  \<^const>\<open>py_replace\<close> leaves a string without an occurrence as it is, and replaces the first
  occurrence and goes on after it.
\<close>

lemma py_replace_absent: "\<not> sublist old s \<Longrightarrow> py_replace old new s = s"
proof (induction s)
  case Nil
  then show ?case by auto
next
  case (Cons c cs)
  then have "old \<noteq> []" by auto
  moreover have "\<not> prefix old (c # cs)" "\<not> sublist old cs"
    using Cons.prems by (auto simp: sublist_Cons_right)
  ultimately show ?case using Cons.IH by simp
qed

lemma py_replace_first:
  assumes "old \<noteq> []" and "\<not> sublist old (pre @ butlast old)"
  shows "py_replace old new (pre @ old @ post) = pre @ new @ py_replace old new post"
  using assms(2)
proof (induction pre)
  case Nil
  obtain c cs where o: "old = c # cs" using assms(1) by (cases old) auto
  have "py_replace old new (c # cs @ post) = new @ py_replace old new (drop (length old) (c # cs @ post))"
    using o by (simp del: drop_Suc_Cons)
  then show ?case using o by simp
next
  case (Cons c pre)
  have n: "\<not> sublist old (pre @ butlast old)"
    using Cons.prems by (auto simp: sublist_Cons_right)
  have "\<not> prefix old (c # pre @ old @ post)"
  proof
    assume p: "prefix old (c # pre @ old @ post)"
    have e: "c # pre @ old @ post = (c # pre @ butlast old) @ (last old # post)"
      using assms(1) by simp
    have "length old \<le> length (c # pre @ butlast old)" by simp
    then have "prefix old (c # pre @ butlast old)"
      using p unfolding e by (rule prefix_of_append_short[rotated])
    then show False using Cons.prems by (auto simp: sublist_Cons_right)
  qed
  then show ?case using Cons.IH[OF n] assms(1) by simp
qed

subsection \<open>Metadata\<close>

text \<open>
  C7. In \<^const>\<open>parse_markdown\<close>, when the Markdown parser has meta data: a value that is
  a list of exactly one element is returned as that element, any other value as it is,
  and a key the meta data does not have keeps the value of the front matter (none, if
  the front matter has none). So the meta extension wins on a key both have.
\<close>

theorem parse_markdown_meta_merge:
  assumes "files st filepath = Some text"
    and "extract_frontmatter E text = Inr (front, body)"
    and "markdown_convert E body = (html, Some markdown_meta)"
  shows "\<exists>metadata. parse_markdown E st filepath = Inr (html, metadata)
           \<and> (\<forall>name x. markdown_meta name = Some (YList [x]) \<longrightarrow> metadata name = Some x)
           \<and> (\<forall>name v. markdown_meta name = Some v \<longrightarrow> (\<forall>x. v \<noteq> YList [x])
                  \<longrightarrow> metadata name = Some v)
           \<and> (\<forall>name. markdown_meta name = None \<longrightarrow> metadata name = front name)"
proof -
  have u: "unwrap v = v" if "\<forall>x. v \<noteq> YList [x]" for v
    using that by (cases v rule: unwrap.cases) auto
  have "parse_markdown E st filepath = Inr (html, front ++ unwrap_meta markdown_meta)"
    using assms by (simp add: parse_markdown_def)
  moreover have "(front ++ unwrap_meta markdown_meta) name = Some x"
    if "markdown_meta name = Some (YList [x])" for name x
    using that by (simp add: map_add_def unwrap_meta_def)
  moreover have "(front ++ unwrap_meta markdown_meta) name = Some v"
    if "markdown_meta name = Some v" "\<forall>x. v \<noteq> YList [x]" for name v
    using that u by (simp add: map_add_def unwrap_meta_def)
  moreover have "(front ++ unwrap_meta markdown_meta) name = front name"
    if "markdown_meta name = None" for name
    using that by (simp add: map_add_def unwrap_meta_def)
  ultimately show ?thesis by blast
qed

theorem parse_markdown_meta_merge_witness:
  "files md_fs ''docs/page.md'' = Some ''Title: Doc\<newline>---\<newline>a: b: c\<newline>---\<newline>body''
   \<and> extract_frontmatter meta_env ''Title: Doc\<newline>---\<newline>a: b: c\<newline>---\<newline>body''
       = Inr ([''title'' \<mapsto> YStr ''Front'', ''author'' \<mapsto> YStr ''A''], ''body'')
   \<and> markdown_convert meta_env ''body''
       = (''<p>body</p>'', Some [''title'' \<mapsto> YList [YStr ''Meta''],
                                 ''tags'' \<mapsto> YList [YStr ''x'', YStr ''y'']])
   \<and> map_sum id (\<lambda>(html, metadata). (html, metadata ''title'', metadata ''tags'', metadata ''author''))
         (parse_markdown meta_env md_fs ''docs/page.md'')
       = Inr (''<p>body</p>'', Some (YStr ''Meta''), Some (YList [YStr ''x'', YStr ''y'']),
              Some (YStr ''A''))"
  using parse_markdown_meta_merge[of md_fs "''docs/page.md''"
          "''Title: Doc\<newline>---\<newline>a: b: c\<newline>---\<newline>body''" meta_env
          "[''title'' \<mapsto> YStr ''Front'', ''author'' \<mapsto> YStr ''A'']" "''body''" "''<p>body</p>''"
          "[''title'' \<mapsto> YList [YStr ''Meta''], ''tags'' \<mapsto> YList [YStr ''x'', YStr ''y'']]"]
  by (simp add: parse_markdown_def extract_frontmatter_def meta_env_def md_env_def md_fs_def
        unwrap_meta_def)

text \<open>
  C3 (amended). When python-frontmatter raises a \<^verbatim>\<open>ScannerError\<close> or a
  \<^verbatim>\<open>ParserError\<close> on a file, \<^const>\<open>parse_markdown\<close> does not fail: the HTML is the
  conversion of the whole text of the file, and the metadata returned is what the
  Markdown meta extension found in that text, each list of one element unwrapped, with
  nothing from the front matter. It is empty only when the meta extension found nothing.
\<close>

theorem parse_markdown_malformed_frontmatter:
  assumes "files st filepath = Some text"
    and "frontmatter_loads E text = Inl e"
    and "e = ScannerError \<or> e = ParserError"
  shows "parse_markdown E st filepath
           = Inr (fst (markdown_convert E text),
                  case snd (markdown_convert E text) of
                    None \<Rightarrow> Map.empty
                  | Some markdown_meta \<Rightarrow> unwrap_meta markdown_meta)"
  using assms
  by (cases "markdown_convert E text")
     (auto simp: parse_markdown_def extract_frontmatter_def split: option.splits)

theorem parse_markdown_malformed_frontmatter_witness:
  "files md_fs ''docs/page.md'' = Some ''Title: Doc\<newline>---\<newline>a: b: c\<newline>---\<newline>body''
   \<and> frontmatter_loads (md_env\<lparr>frontmatter_loads := (\<lambda>text. Inl ParserError),
                                 markdown_convert := (\<lambda>text. (''<p>'' @ text @ ''</p>'', None))\<rparr>)
         ''Title: Doc\<newline>---\<newline>a: b: c\<newline>---\<newline>body'' = Inl ParserError
   \<and> parse_markdown (md_env\<lparr>frontmatter_loads := (\<lambda>text. Inl ParserError),
                               markdown_convert := (\<lambda>text. (''<p>'' @ text @ ''</p>'', None))\<rparr>)
         md_fs ''docs/page.md''
       = Inr (''<p>Title: Doc\<newline>---\<newline>a: b: c\<newline>---\<newline>body</p>'', Map.empty)"
  using parse_markdown_malformed_frontmatter[of md_fs "''docs/page.md''"
          "''Title: Doc\<newline>---\<newline>a: b: c\<newline>---\<newline>body''"
          "md_env\<lparr>frontmatter_loads := (\<lambda>text. Inl ParserError),
                  markdown_convert := (\<lambda>text. (''<p>'' @ text @ ''</p>'', None))\<rparr>" ParserError]
  by (simp add: md_env_def md_fs_def)

text \<open>
  C3 as stated fails: the claim says the metadata returned is empty. Here the front matter
  raises a \<^verbatim>\<open>ScannerError\<close> and the metadata returned holds the title the meta
  extension read from the whole text.
\<close>

theorem parse_markdown_malformed_frontmatter_keeps_meta:
  "files md_fs ''docs/page.md'' = Some ''Title: Doc\<newline>---\<newline>a: b: c\<newline>---\<newline>body''
   \<and> frontmatter_loads md_env ''Title: Doc\<newline>---\<newline>a: b: c\<newline>---\<newline>body'' = Inl ScannerError
   \<and> parse_markdown md_env md_fs ''docs/page.md'' = Inr (''<p>body</p>'', [''title'' \<mapsto> YStr ''Doc''])
   \<and> [''title'' \<mapsto> YStr ''Doc''] \<noteq> Map.empty"
  by (auto simp: parse_markdown_def extract_frontmatter_def md_env_def md_fs_def unwrap_meta_def
        fun_eq_iff)

subsection \<open>The template context\<close>

text \<open>
  C10. Every template is rendered with one context, in which \<^verbatim>\<open>content\<close> is the HTML of
  the Markdown body, and every other key has the value of the document's metadata when
  the metadata has the key, and of the merged \<^verbatim>\<open>context.yaml\<close> files otherwise. So a
  \<^verbatim>\<open>content\<close> key of the front matter or of a \<^verbatim>\<open>context.yaml\<close> never reaches the
  template.
\<close>

theorem build_html_context_precedence:
  assumes "parse_markdown E st source_filepath = Inr (html_content, metadata)"
    and "build_context B E st (dirname source_filepath) = Inr local_context"
  shows "\<exists>ctx. ctx ''content'' = Some (YStr html_content)
           \<and> (\<forall>k. k \<noteq> ''content'' \<longrightarrow>
                  ctx k = (case metadata k of Some v \<Rightarrow> Some v | None \<Rightarrow> local_context k))
           \<and> (\<forall>t. build_html (B\<lparr>template := t\<rparr>) E st source_filepath
                    = map_sum id (replace_internal_links B) (t ctx))"
proof -
  let ?ctx = "template_context local_context metadata html_content"
  have "?ctx ''content'' = Some (YStr html_content)"
    by (simp add: template_context_def)
  moreover have "?ctx k = (case metadata k of Some v \<Rightarrow> Some v | None \<Rightarrow> local_context k)"
    if "k \<noteq> ''content''" for k
    using that by (simp add: template_context_def map_add_def)
  moreover have "build_html (B\<lparr>template := t\<rparr>) E st source_filepath
                    = map_sum id (replace_internal_links B) (t ?ctx)" for t
    using assms
    by (cases "t ?ctx") (simp_all add: build_html_def build_context_def replace_internal_links_def)
  ultimately show ?thesis by blast
qed

theorem build_html_context_precedence_witness:
  "parse_markdown shadow_env example_fs ''docs/ab/page.md''
     = Inr (''<p>see ../media/logo.png</p>'', [''content'' \<mapsto> YStr ''front'', ''site'' \<mapsto> YStr ''page''])
   \<and> build_context example_builder shadow_env example_fs (dirname ''docs/ab/page.md'')
     = Inr [''site'' \<mapsto> YStr ''docs'', ''section'' \<mapsto> YStr ''a'']
   \<and> build_html (example_builder\<lparr>template := show_site\<rparr>) shadow_env example_fs ''docs/ab/page.md''
     = Inr ''page: <p>see ../media/logo.png</p>''"
  using build_html_context_precedence[of shadow_env example_fs "''docs/ab/page.md''"
          "''<p>see ../media/logo.png</p>''" "[''content'' \<mapsto> YStr ''front'', ''site'' \<mapsto> YStr ''page'']"
          example_builder "[''site'' \<mapsto> YStr ''docs'', ''section'' \<mapsto> YStr ''a'']"]
  by (simp add: build_html_def parse_markdown_def extract_frontmatter_def build_context_def
        shadow_env_def example_builder_def example_env_def example_fs_def unwrap_meta_def
        template_context_def dirname_def replace_internal_links_def match_href_md_def
        show_site_def fun_eq_iff)

text \<open>
  What \<^const>\<open>build_context\<close> merges: the files whose directory, as a string, starts the
  document's directory, in the order found, later files over earlier ones.
\<close>

lemma build_context_loop_skips:
  "build_context_loop E st local_path fs ctx
     = build_context_loop E st local_path (filter (\<lambda>f. prefix (dirname f) local_path) fs) ctx"
  by (induction fs arbitrary: ctx) (auto split: option.splits sum.splits)

lemma build_context_loop_merges:
  assumes "\<forall>f\<in>set fs. prefix (dirname f) local_path \<longrightarrow>
             (\<exists>t d. files st f = Some t \<and> yaml_load E t = Inr d)"
  shows "build_context_loop E st local_path fs ctx
     = Inr (foldl (++) ctx
              (map (\<lambda>f. projr (yaml_load E (the (files st f))))
                 (filter (\<lambda>f. prefix (dirname f) local_path) fs)))"
  using assms
proof (induction fs arbitrary: ctx)
  case Nil
  then show ?case by simp
next
  case (Cons f fs)
  show ?case
  proof (cases "prefix (dirname f) local_path")
    case True
    then obtain t d where "files st f = Some t" "yaml_load E t = Inr d"
      using Cons.prems by auto
    then show ?thesis using True Cons by simp
  next
    case False
    then show ?thesis using Cons by simp
  qed
qed

text \<open>
  C4 (the code does otherwise). The claim: only the \<^verbatim>\<open>context.yaml\<close> files of the
  document's directory and of the directories above it are merged. The code compares
  the two directories as strings (\<^verbatim>\<open>startswith\<close>): for a page in \<^verbatim>\<open>docs/ab\<close> the file
  \<^verbatim>\<open>docs/a/context.yaml\<close> is merged too, though \<^verbatim>\<open>docs/a\<close> is not above \<^verbatim>\<open>docs/ab\<close>
  (the names on the way to the first do not start the names on the way to the second).
\<close>

theorem build_context_merges_sibling:
  "dirname ''docs/a/context.yaml'' = ''docs/a''
   \<and> \<not> prefix (path_list ''/w'' ''docs/a'') (path_list ''/w'' ''docs/ab'')
   \<and> map_sum id (\<lambda>local_context. local_context ''section'')
         (build_context example_builder example_env example_fs ''docs/ab'')
       = Inr (Some (YStr ''a''))"
  by code_simp

subsection \<open>Media links\<close>

lemma replace_media_links_eq:
  assumes "source_media_path B \<noteq> []" and "output_media_path B \<noteq> []"
  shows "\<exists>old rel.
      relpath (cwd E) (source_media_path B) (dirname source_filepath) = Inr old \<and> old \<noteq> []
    \<and> relpath (cwd E) (output_media_path B) (dirname output_filepath) = Inr rel
    \<and> (\<forall>doc. replace_media_links B E doc source_filepath output_filepath
          = Inr (py_replace old
                  (case media_url B of None \<Rightarrow> rel | Some u \<Rightarrow> if u = [] then rel else u) doc))"
proof -
  obtain old where old: "relpath (cwd E) (source_media_path B) (dirname source_filepath) = Inr old"
    using relpath_Inr[OF assms(1)] by blast
  obtain rel where rel: "relpath (cwd E) (output_media_path B) (dirname output_filepath) = Inr rel"
    using relpath_Inr[OF assms(2)] by blast
  have "old \<noteq> []" using old by (rule relpath_not_empty)
  then show ?thesis using old rel by (simp add: replace_media_links_def)
qed

text \<open>
  C6. With media paths that are not empty, \<^const>\<open>replace_media_links\<close> never fails. It
  replaces \<open>old\<close>, the path from the directory of the source document to the source media
  directory, by \<open>new\<close>, the media URL when one is set and not empty and otherwise the path
  from the directory of the output document to the output media directory, as
  \<^verbatim>\<open>str.replace\<close> does: a document in which \<open>old\<close> does not occur is returned as it is,
  and in a document where \<open>old\<close> first occurs after \<open>pre\<close>, \<open>pre\<close> is kept, \<open>new\<close> stands
  for \<open>old\<close>, and the rest of the document is treated the same way.
\<close>

theorem replace_media_links_substring_replace:
  assumes "source_media_path B \<noteq> []" and "output_media_path B \<noteq> []"
  shows "\<exists>old rel new.
      relpath (cwd E) (source_media_path B) (dirname source_filepath) = Inr old \<and> old \<noteq> []
    \<and> relpath (cwd E) (output_media_path B) (dirname output_filepath) = Inr rel
    \<and> new = (case media_url B of None \<Rightarrow> rel | Some u \<Rightarrow> if u = [] then rel else u)
    \<and> (\<forall>doc. replace_media_links B E doc source_filepath output_filepath
                 = Inr (py_replace old new doc))
    \<and> (\<forall>doc. \<not> sublist old doc \<longrightarrow>
           replace_media_links B E doc source_filepath output_filepath = Inr doc)
    \<and> (\<forall>pre post. \<not> sublist old (pre @ butlast old) \<longrightarrow>
           replace_media_links B E (pre @ old @ post) source_filepath output_filepath
             = map_sum id (\<lambda>r. pre @ new @ r)
                 (replace_media_links B E post source_filepath output_filepath))"
proof -
  obtain old rel where o:
    "relpath (cwd E) (source_media_path B) (dirname source_filepath) = Inr old" "old \<noteq> []"
    "relpath (cwd E) (output_media_path B) (dirname output_filepath) = Inr rel"
    and r: "\<And>doc. replace_media_links B E doc source_filepath output_filepath
          = Inr (py_replace old
                  (case media_url B of None \<Rightarrow> rel | Some u \<Rightarrow> if u = [] then rel else u) doc)"
    using replace_media_links_eq[OF assms] by blast
  define new where "new = (case media_url B of None \<Rightarrow> rel | Some u \<Rightarrow> if u = [] then rel else u)"
  have r': "replace_media_links B E doc source_filepath output_filepath
          = Inr (py_replace old new doc)" for doc
    unfolding new_def by (rule r)
  have "replace_media_links B E doc source_filepath output_filepath = Inr doc"
    if "\<not> sublist old doc" for doc
    using that by (simp add: r' py_replace_absent)
  moreover have "replace_media_links B E (pre @ old @ post) source_filepath output_filepath
             = map_sum id (\<lambda>r. pre @ new @ r)
                 (replace_media_links B E post source_filepath output_filepath)"
    if "\<not> sublist old (pre @ butlast old)" for pre post
    using that o(2) by (simp add: r' py_replace_first)
  ultimately show ?thesis using o new_def r' by blast
qed

lemma example_build_html:
  "build_html example_builder example_env example_fs ''docs/ab/page.md''
     = Inr ''<html><p>see ../media/logo.png</p></html>''"
  by code_simp

lemma example_replace_media_links:
  "replace_media_links example_builder example_env ''<html><p>see ../media/logo.png</p></html>''
     ''docs/ab/page.md'' ''build/ab/page.html''
   = Inr ''<html><p>see ../static/logo.png</p></html>''"
  by code_simp

theorem replace_media_links_substring_replace_witness:
  "source_media_path example_builder \<noteq> [] \<and> output_media_path example_builder \<noteq> []
   \<and> relpath (cwd example_env) (source_media_path example_builder) (dirname ''docs/ab/page.md'')
       = Inr ''../media''
   \<and> relpath (cwd example_env) (output_media_path example_builder) (dirname ''build/ab/page.html'')
       = Inr ''../static''
   \<and> replace_media_links example_builder example_env ''see ../media/logo.png, ../media/b.png''
         ''docs/ab/page.md'' ''build/ab/page.html''
       = Inr ''see ../static/logo.png, ../static/b.png''
   \<and> replace_media_links (example_builder\<lparr>media_url := Some ''https://cdn/m''\<rparr>) example_env
         ''see ../media/logo.png'' ''docs/ab/page.md'' ''build/ab/page.html''
       = Inr ''see https://cdn/m/logo.png''"
proof -
  have h: "source_media_path example_builder \<noteq> []" "output_media_path example_builder \<noteq> []"
    by (simp_all add: example_builder_def)
  have r: "relpath (cwd example_env) (source_media_path example_builder) (dirname ''docs/ab/page.md'')
       = Inr ''../media''"
    "relpath (cwd example_env) (output_media_path example_builder) (dirname ''build/ab/page.html'')
       = Inr ''../static''"
    by code_simp+
  from replace_media_links_substring_replace[OF h, of example_env "''docs/ab/page.md''"
         "''build/ab/page.html''"]
  have 1: "replace_media_links example_builder example_env ''see ../media/logo.png, ../media/b.png''
         ''docs/ab/page.md'' ''build/ab/page.html''
       = Inr (py_replace ''../media'' ''../static'' ''see ../media/logo.png, ../media/b.png'')"
    unfolding r by (auto simp: example_builder_def)
  have h': "source_media_path (example_builder\<lparr>media_url := Some ''https://cdn/m''\<rparr>) \<noteq> []"
    "output_media_path (example_builder\<lparr>media_url := Some ''https://cdn/m''\<rparr>) \<noteq> []"
    by (simp_all add: example_builder_def)
  have 2: "replace_media_links (example_builder\<lparr>media_url := Some ''https://cdn/m''\<rparr>) example_env
         ''see ../media/logo.png'' ''docs/ab/page.md'' ''build/ab/page.html''
       = Inr ''see https://cdn/m/logo.png''"
    by code_simp
  show ?thesis using h r 1 2 by simp
qed

subsection \<open>Ignored files\<close>

lemma build_context_loop_files:
  "files st1 = files st2 \<Longrightarrow>
   build_context_loop E st1 lp fs ctx = build_context_loop E st2 lp fs ctx"
  by (induction fs arbitrary: ctx) (auto split: option.splits sum.splits)

lemma build_html_files:
  assumes "files st1 = files st2"
  shows "build_html B E st1 f = build_html B E st2 f"
proof -
  have "parse_markdown E st1 f = parse_markdown E st2 f"
    using assms by (simp add: parse_markdown_def)
  moreover have "build_context B E st1 (dirname f) = build_context B E st2 (dirname f)"
    unfolding build_context_def by (rule build_context_loop_files[OF assms])
  ultimately show ?thesis by (simp add: build_html_def cong: sum.case_cong)
qed

lemma makedirs_same_tree:
  "files st1 = files st2 \<Longrightarrow> dirs st1 = dirs st2 \<Longrightarrow>
   map_sum id (\<lambda>s. (files s, dirs s)) (makedirs name st1)
     = map_sum id (\<lambda>s. (files s, dirs s)) (makedirs name st2)"
  by (simp add: makedirs_def Let_def)

lemma open_w_same_tree:
  "files st1 = files st2 \<Longrightarrow> dirs st1 = dirs st2 \<Longrightarrow>
   map_sum id (\<lambda>s. (files s, dirs s)) (open_w out doc st1)
     = map_sum id (\<lambda>s. (files s, dirs s)) (open_w out doc st2)"
  by (simp add: open_w_def Let_def)

lemma write_file_same_tree:
  assumes "files st1 = files st2" and "dirs st1 = dirs st2"
  shows "map_sum id (\<lambda>s. (files s, dirs s)) (write_file doc out st1)
           = map_sum id (\<lambda>s. (files s, dirs s)) (write_file doc out st2)"
proof (cases "makedirs (dirname out) st1")
  case (Inl e)
  then have "makedirs (dirname out) st2 = Inl e"
    using makedirs_same_tree[OF assms, of "dirname out"]
    by (cases "makedirs (dirname out) st2") auto
  then show ?thesis using Inl by (simp add: write_file_def)
next
  case (Inr s1)
  then obtain s2 where s2: "makedirs (dirname out) st2 = Inr s2"
      "files s1 = files s2" "dirs s1 = dirs s2"
    using makedirs_same_tree[OF assms, of "dirname out"]
    by (cases "makedirs (dirname out) st2") auto
  show ?thesis
  proof (cases "open_w out doc s1")
    case (Inl e)
    then have "open_w out doc s2 = Inl e"
      using open_w_same_tree[OF s2(2,3), of out doc] by (cases "open_w out doc s2") auto
    then show ?thesis using Inl Inr s2(1) by (simp add: write_file_def)
  next
    case r: (Inr t1)
    then obtain t2 where "open_w out doc s2 = Inr t2" "files t1 = files t2" "dirs t1 = dirs t2"
      using open_w_same_tree[OF s2(2,3), of out doc] by (cases "open_w out doc s2") auto
    then show ?thesis using r Inr s2(1) by (simp add: write_file_def print_def)
  qed
qed

lemma build_file_same_tree:
  assumes "files st1 = files st2" and "dirs st1 = dirs st2"
  shows "map_sum id (\<lambda>s. (files s, dirs s)) (build_file B E f st1)
           = map_sum id (\<lambda>s. (files s, dirs s)) (build_file B E f st2)"
  using write_file_same_tree[OF assms] build_html_files[OF assms(1), of B E f]
  by (auto simp: build_file_def Let_def split: sum.splits)

lemma build_files_loop_same_tree:
  "files st1 = files st2 \<Longrightarrow> dirs st1 = dirs st2 \<Longrightarrow>
   map_sum id (\<lambda>s. (files s, dirs s)) (build_files_loop B E fs st1)
     = map_sum id (\<lambda>s. (files s, dirs s))
         (build_files_loop B E (filter (\<lambda>f. basename f \<notin> set (ignore_files B)) fs) st2)"
proof (induction fs arbitrary: st1 st2)
  case Nil
  then show ?case by simp
next
  case (Cons f fs)
  show ?case
  proof (cases "basename f \<in> set (ignore_files B)")
    case True
    have "files (print (''Ignored '' @ f) st1) = files st2"
      "dirs (print (''Ignored '' @ f) st1) = dirs st2"
      using Cons.prems by (simp_all add: print_def)
    then show ?thesis using True Cons.IH by simp
  next
    case False
    have e: "map_sum id (\<lambda>s. (files s, dirs s)) (build_file B E f st1)
           = map_sum id (\<lambda>s. (files s, dirs s)) (build_file B E f st2)"
      using Cons.prems by (rule build_file_same_tree)
    show ?thesis
    proof (cases "build_file B E f st1")
      case (Inl e1)
      then show ?thesis using e False by (cases "build_file B E f st2") auto
    next
      case (Inr s1)
      then obtain s2 where s2: "build_file B E f st2 = Inr s2" "files s1 = files s2" "dirs s1 = dirs s2"
        using e by (cases "build_file B E f st2") auto
      then show ?thesis using Inr False Cons.IH[of s1 s2] by simp
    qed
  qed
qed

lemma makedirs_keeps:
  "makedirs name st = Inr st' \<Longrightarrow> files st' = files st \<and> stdout st' = stdout st"
  by (auto simp: makedirs_def Let_def split: if_splits)

lemma open_w_keeps:
  "open_w out doc st = Inr st' \<Longrightarrow> files st' = (files st)(out \<mapsto> doc) \<and> stdout st' = stdout st"
  by (auto simp: open_w_def Let_def split: if_splits)

lemma write_file_Inr:
  assumes "write_file doc out st = Inr st'"
  shows "files st' = (files st)(out \<mapsto> doc) \<and> stdout st' = stdout st @ [''Created '' @ out]"
proof -
  obtain s1 s2 where s: "makedirs (dirname out) st = Inr s1" "open_w out doc s1 = Inr s2"
      "st' = print (''Created '' @ out) s2"
    using assms by (auto simp: write_file_def split: sum.splits)
  show ?thesis
    using makedirs_keeps[OF s(1)] open_w_keeps[OF s(2)] s(3) by (simp add: print_def)
qed

lemma write_file_stdout:
  "write_file doc out st = Inr st' \<Longrightarrow> stdout st' = stdout st @ [''Created '' @ out]"
  using write_file_Inr by blast

lemma build_file_stdout:
  "build_file B E f st = Inr st' \<Longrightarrow> set (stdout st) \<subseteq> set (stdout st')"
  by (auto simp: build_file_def Let_def split: sum.splits dest!: write_file_stdout)

lemma build_files_loop_stdout:
  "build_files_loop B E fs st = Inr st' \<Longrightarrow> set (stdout st) \<subseteq> set (stdout st')"
proof (induction fs arbitrary: st)
  case Nil
  then show ?case by simp
next
  case (Cons f fs)
  show ?case
  proof (cases "basename f \<in> set (ignore_files B)")
    case True
    then have "set (stdout (print (''Ignored '' @ f) st)) \<subseteq> set (stdout st')"
      using Cons by simp
    then show ?thesis by (auto simp: print_def)
  next
    case False
    then obtain s where s: "build_file B E f st = Inr s" "build_files_loop B E fs s = Inr st'"
      using Cons.prems by (auto split: sum.splits)
    then show ?thesis using build_file_stdout[OF s(1)] Cons.IH[OF s(2)] by blast
  qed
qed

lemma build_files_loop_reports:
  "build_files_loop B E fs st = Inr st' \<Longrightarrow> f \<in> set fs \<Longrightarrow> basename f \<in> set (ignore_files B)
     \<Longrightarrow> ''Ignored '' @ f \<in> set (stdout st')"
proof (induction fs arbitrary: st)
  case Nil
  then show ?case by simp
next
  case (Cons g fs)
  show ?case
  proof (cases "basename g \<in> set (ignore_files B)")
    case True
    then have l: "build_files_loop B E fs (print (''Ignored '' @ g) st) = Inr st'"
      using Cons.prems(1) by simp
    show ?thesis
    proof (cases "f = g")
      case True
      have "''Ignored '' @ g \<in> set (stdout (print (''Ignored '' @ g) st))"
        by (simp add: print_def)
      then show ?thesis using build_files_loop_stdout[OF l] True by blast
    next
      case False
      then show ?thesis using Cons.IH[OF l] Cons.prems(2,3) by simp
    qed
  next
    case False
    then obtain s where s: "build_file B E g st = Inr s" "build_files_loop B E fs s = Inr st'"
      using Cons.prems(1) by (auto split: sum.splits)
    have "f \<noteq> g" using False Cons.prems(3) by auto
    then show ?thesis using Cons.IH[OF s(2)] Cons.prems(2,3) by simp
  qed
qed

text \<open>
  C8. When the loop over the files found returns, it has printed \<^verbatim>\<open>Ignored\<close> and the
  path for every file whose base name is on the ignore list. The files and directories
  it leaves, or the exception it stops at, are those of the same loop over the files
  that are not ignored: an ignored file writes nothing and stops nothing.
\<close>

theorem build_files_skips_ignored:
  "(\<forall>st'. build_files_loop B E fs st = Inr st' \<longrightarrow>
      (\<forall>f\<in>set fs. basename f \<in> set (ignore_files B) \<longrightarrow> ''Ignored '' @ f \<in> set (stdout st')))
   \<and> map_sum id (\<lambda>s. (files s, dirs s)) (build_files_loop B E fs st)
       = map_sum id (\<lambda>s. (files s, dirs s))
           (build_files_loop B E (filter (\<lambda>f. basename f \<notin> set (ignore_files B)) fs) st)"
  using build_files_loop_reports[of B E fs st] build_files_loop_same_tree[of st st B E fs]
  by blast

theorem build_files_skips_ignored_witness:
  "basename ''docs/README.md'' \<in> set (ignore_files example_builder)
   \<and> map_sum id (\<lambda>st'. (stdout st', files st' ''build/README.html'', files st' ''build/ab/page.html''))
         (build_files_loop example_builder example_env [''docs/README.md'', ''docs/ab/page.md'']
            example_fs)
       = Inr ([''Ignored docs/README.md'', ''Created build/ab/page.html''], None,
              Some ''<html><p>see ../static/logo.png</p></html>'')
   \<and> map_sum id (\<lambda>st'. files st' ''build/ab/page.html'')
         (build_files_loop example_builder example_env [''docs/ab/page.md''] example_fs)
       = Inr (Some ''<html><p>see ../static/logo.png</p></html>'')"
proof -
  have "map_sum id (\<lambda>st'. (stdout st', files st' ''build/README.html'', files st' ''build/ab/page.html''))
         (build_files_loop example_builder example_env [''docs/README.md'', ''docs/ab/page.md'']
            example_fs)
       = Inr ([''Ignored docs/README.md'', ''Created build/ab/page.html''], None,
              Some ''<html><p>see ../static/logo.png</p></html>'')"
    by code_simp
  moreover have "basename ''docs/README.md'' \<in> set (ignore_files example_builder)"
    by code_simp
  moreover have "filter (\<lambda>f. basename f \<notin> set (ignore_files example_builder))
                   [''docs/README.md'', ''docs/ab/page.md''] = [''docs/ab/page.md'']"
    by code_simp
  ultimately show ?thesis
    using build_files_skips_ignored[of example_builder example_env
            "[''docs/README.md'', ''docs/ab/page.md'']" example_fs]
    by (auto simp: map_sum_def split: sum.splits)
qed

subsection \<open>Output files\<close>

lemma dirname_prefix: "prefix (dirname p) p"
proof -
  have s: "suffix (dropWhile Q xs) xs" for Q and xs :: string
    by (rule suffix_dropWhile)
  have "suffix (dropWhile (\<lambda>c. c = CHR ''/'') (dropWhile (\<lambda>c. c \<noteq> CHR ''/'') (rev p))) (rev p)"
    using s suffix_order.trans by blast
  then show ?thesis
    using s[of "\<lambda>c. c \<noteq> CHR ''/''" "rev p"] by (simp add: dirname_def Let_def suffix_to_prefix)
qed

lemma dirs_above_shorter: "a \<in> set (dirs_above p) \<Longrightarrow> length a < length p"
proof (induction p rule: dirs_above.induct)
  case (1 p)
  show ?case
  proof (cases "dirname p = [] \<or> dirname p = p")
    case True
    then show ?thesis using 1(2) by (simp add: dirs_above.simps[of p] Let_def)
  next
    case False
    have l: "length (dirname p) < length p"
      using False dirname_prefix[of p] by (metis prefix_length_less prefix_order.le_neq_trans)
    from 1(2) False have "a = dirname p \<or> a \<in> set (dirs_above (dirname p))"
      by (simp add: dirs_above.simps[of p] Let_def)
    then show ?thesis using l 1(1)[OF refl False] by force
  qed
qed

lemma rstrip_sep_fix:
  "rstrip_sep (rev (dropWhile (\<lambda>c. c = CHR ''/'') r)) = rev (dropWhile (\<lambda>c. c = CHR ''/'') r)"
  by (simp add: rstrip_sep_def)

lemma rstrip_sep_dirname: "rstrip_sep (dirname p) = dirname p"
proof -
  define h where "h = rev (dropWhile (\<lambda>c. c \<noteq> CHR ''/'') (rev p))"
  show ?thesis
  proof (cases "h \<noteq> [] \<and> h \<noteq> replicate (length h) (CHR ''/'')")
    case True
    then have "dirname p = rev (dropWhile (\<lambda>c. c = CHR ''/'') (rev h))"
      by (simp add: dirname_def h_def Let_def)
    then show ?thesis by (simp only: rstrip_sep_fix)
  next
    case False
    then have "h = replicate (length h) (CHR ''/'')" by (cases "h = []") auto
    moreover have "dirname p = h"
      unfolding dirname_def Let_def h_def[symmetric] by (rule if_not_P[OF False])
    ultimately show ?thesis by (simp add: rstrip_sep_def)
  qed
qed

lemma basename_last: "basename p \<noteq> [] \<Longrightarrow> p \<noteq> [] \<and> last p \<noteq> CHR ''/''"
  by (cases p rule: rev_cases) (auto simp: basename_def)

lemma rstrip_sep_id: "basename p \<noteq> [] \<Longrightarrow> rstrip_sep p = p"
  by (cases p rule: rev_cases) (auto simp: basename_def rstrip_sep_def)

lemma dirname_shorter: "basename p \<noteq> [] \<Longrightarrow> length (dirname p) < length p"
proof -
  assume b: "basename p \<noteq> []"
  define h where "h = rev (dropWhile (\<lambda>c. c \<noteq> CHR ''/'') (rev p))"
  have "length h + length (basename p) = length p"
    unfolding h_def basename_def
    by (metis add.commute length_append length_rev takeWhile_dropWhile_id)
  then have "length h < length p" using b by (cases "basename p") auto
  moreover have "length (dirname p) \<le> length h"
    unfolding dirname_def h_def[symmetric] Let_def
    by (simp add: length_dropWhile_le le_trans[OF length_dropWhile_le])
  ultimately show ?thesis by simp
qed

lemma basename_ext:
  assumes "CHR ''/'' \<notin> set e"
  shows "basename (x @ e) = basename x @ e"
proof -
  have "c \<noteq> CHR ''/''" if "c \<in> set (rev e)" for c using assms that by auto
  then have "takeWhile (\<lambda>c. c \<noteq> CHR ''/'') (rev e @ rev x)
               = rev e @ takeWhile (\<lambda>c. c \<noteq> CHR ''/'') (rev x)"
    by (rule takeWhile_append2)
  then show ?thesis by (simp add: basename_def)
qed

lemma basename_html: "basename (x @ ''.html'') \<notin> {[], ''.'', ''..''}"
proof -
  have "basename (x @ ''.html'') = basename x @ ''.html''"
    by (rule basename_ext) simp
  then have l: "5 \<le> length (basename (x @ ''.html''))" by simp
  have "basename (x @ ''.html'') \<noteq> s" if "length s < 5" for s
    using l that by auto
  then have "basename (x @ ''.html'') \<noteq> []" "basename (x @ ''.html'') \<noteq> ''.''"
    "basename (x @ ''.html'') \<noteq> ''..''"
    by simp_all
  then show ?thesis by simp
qed

text \<open>
  What \<^const>\<open>write_file\<close> does at a path that has a directory part and whose last
  name is a file name: the three ways in which the file system refuses, and the state
  after the write.
\<close>

lemma write_file_cases:
  assumes d: "dirname output_filepath \<noteq> []"
    and b: "basename output_filepath \<notin> {[], ''.'', ''..''}"
  shows "write_file doc output_filepath st =
     (if list_ex (\<lambda>a. files st a \<noteq> None) (dirs_above (dirname output_filepath))
        then Inl NotADirectoryError
      else if files st (dirname output_filepath) \<noteq> None then Inl FileExistsError
      else if output_filepath \<in> dirs st then Inl IsADirectoryError
      else Inr (st\<lparr>files := (files st)(output_filepath \<mapsto> doc),
                   dirs := dirs st
                     \<union> set (dirname output_filepath # dirs_above (dirname output_filepath)),
                   stdout := stdout st @ [''Created '' @ output_filepath]\<rparr>))"
proof -
  let ?d = "dirname output_filepath"
  have b': "basename output_filepath \<noteq> []" using b by simp
  have ne: "output_filepath \<noteq> []" using basename_last[OF b'] by simp
  have r: "rstrip_sep output_filepath = output_filepath" using b' by (rule rstrip_sep_id)
  have lt: "length ?d < length output_filepath" using b' by (rule dirname_shorter)
  then have dne: "?d \<noteq> output_filepath" by auto
  have ab: "dirs_above output_filepath = ?d # dirs_above ?d"
    using d dne by (simp add: dirs_above.simps[of output_filepath] Let_def)
  have nin: "output_filepath \<notin> set (?d # dirs_above ?d)"
    using lt dirs_above_shorter[of output_filepath ?d] by auto
  show ?thesis
  proof (cases "list_ex (\<lambda>a. files st a \<noteq> None) (dirs_above ?d)")
    case True
    then show ?thesis
      using d by (simp add: write_file_def makedirs_def rstrip_sep_dirname Let_def)
  next
    case na: False
    show ?thesis
    proof (cases "files st ?d \<noteq> None")
      case True
      then show ?thesis
        using d na by (simp add: write_file_def makedirs_def rstrip_sep_dirname Let_def)
    next
      case nf: False
      define st1 where "st1 = st\<lparr>dirs := dirs st \<union> set (?d # dirs_above ?d)\<rparr>"
      have m: "makedirs ?d st = Inr st1"
        using d na nf by (simp add: makedirs_def rstrip_sep_dirname st1_def Let_def)
      have f1: "files st1 = files st" and d1: "dirs st1 = dirs st \<union> set (?d # dirs_above ?d)"
        by (simp_all add: st1_def)
      have c1: "\<not> list_ex (\<lambda>a. files st1 a \<noteq> None) (dirs_above output_filepath)"
        using na nf by (simp add: ab f1)
      have c2: "?d \<in> dirs st1" by (simp add: d1)
      have c3: "(output_filepath \<in> dirs st1) = (output_filepath \<in> dirs st)"
        using nin by (simp add: d1)
      have o: "open_w output_filepath doc st1 =
                 (if output_filepath \<in> dirs st then Inl IsADirectoryError
                  else Inr (st1\<lparr>files := (files st1)(output_filepath \<mapsto> doc)\<rparr>))"
        using ne c1 c2 c3 b by (simp add: open_w_def r Let_def)
      have "write_file doc output_filepath st =
              (if output_filepath \<in> dirs st then Inl IsADirectoryError
               else Inr (print (''Created '' @ output_filepath)
                           (st1\<lparr>files := (files st1)(output_filepath \<mapsto> doc)\<rparr>)))"
        by (simp add: write_file_def m o)
      then show ?thesis
        using na nf by (simp add: print_def st1_def)
    qed
  qed
qed

text \<open>
  The example tree with a regular file where the output needs a directory, and with a
  directory where the output file goes: the build of the page raises what
  \<^verbatim>\<open>makedirs\<close> and \<^verbatim>\<open>open\<close> raise.
\<close>

lemma build_file_regular_file_above:
  "map_sum id (\<lambda>st'. files st' ''build/ab/page.html'')
     (build_file example_builder example_env ''docs/ab/page.md''
     (example_fs\<lparr>files := (files example_fs)(''build'' \<mapsto> ''text'')\<rparr>))
   = Inl NotADirectoryError"
  by code_simp

lemma build_file_regular_file_at_directory:
  "map_sum id (\<lambda>st'. files st' ''build/ab/page.html'')
     (build_file example_builder example_env ''docs/ab/page.md''
     (example_fs\<lparr>files := (files example_fs)(''build/ab'' \<mapsto> ''text''),
                 dirs := dirs example_fs \<union> {''build''}\<rparr>))
   = Inl FileExistsError"
  by code_simp

lemma build_file_directory_at_output:
  "map_sum id (\<lambda>st'. files st' ''build/ab/page.html'')
     (build_file example_builder example_env ''docs/ab/page.md''
     (example_fs\<lparr>dirs := dirs example_fs \<union> {''build'', ''build/ab'', ''build/ab/page.html''}\<rparr>))
   = Inl IsADirectoryError"
  by code_simp

text \<open>
  A tree with the page \<^verbatim>\<open>x.md\<close> next to the directory \<^verbatim>\<open>x.html\<close> and its page
  \<^verbatim>\<open>y.md\<close>: whichever is built first, the second one finds its output path taken.
\<close>

lemma build_files_loop_output_path_taken:
  "map_sum id stdout
     (build_files_loop example_builder example_env [''docs/x.md'', ''docs/x.html/y.md'']
        (example_fs\<lparr>files := (files example_fs)(''docs/x.md'' \<mapsto> ''a'',
                                                   ''docs/x.html/y.md'' \<mapsto> ''b'')\<rparr>))
   = Inl FileExistsError"
  "map_sum id stdout
     (build_files_loop example_builder example_env [''docs/x.html/y.md'', ''docs/x.md'']
        (example_fs\<lparr>files := (files example_fs)(''docs/x.md'' \<mapsto> ''a'',
                                                   ''docs/x.html/y.md'' \<mapsto> ''b'')\<rparr>))
   = Inl IsADirectoryError"
  by code_simp+

lemma build_file_result:
  assumes wd: "prefix ''/'' (cwd E)"
    and names: "\<forall>c\<in>set (ds @ [stem @ ''.md'']). name_ok c"
    and src: "source_filepath = path_join (source_path B) (sep_join (ds @ [stem @ ''.md'']))"
    and out: "output_filepath = path_join (output_path B) (sep_join (ds @ [stem @ ''.html'']))"
    and paths: "output_path B \<noteq> []" "source_media_path B \<noteq> []" "output_media_path B \<noteq> []"
  shows "relpath (cwd E) source_filepath (source_path B) = Inr (sep_join (ds @ [stem @ ''.md'']))"
    and "re_sub_md_end (path_join (output_path B) (sep_join (ds @ [stem @ ''.md''])))
           = output_filepath"
    and "build_html B E st source_filepath = Inr html_document \<Longrightarrow>
         \<exists>doc.
            replace_media_links B E html_document source_filepath output_filepath = Inr doc
          \<and> build_file B E source_filepath st =
              (if list_ex (\<lambda>a. files st a \<noteq> None) (dirs_above (dirname output_filepath))
                 then Inl NotADirectoryError
               else if files st (dirname output_filepath) \<noteq> None then Inl FileExistsError
               else if output_filepath \<in> dirs st then Inl IsADirectoryError
               else Inr (st\<lparr>files := (files st)(output_filepath \<mapsto> doc),
                            dirs := dirs st
                              \<union> set (dirname output_filepath # dirs_above (dirname output_filepath)),
                            stdout := stdout st @ [''Created '' @ output_filepath]\<rparr>))"
proof -
  let ?rel = "sep_join (ds @ [stem @ ''.md''])"
  show lp: "relpath (cwd E) source_filepath (source_path B) = Inr ?rel"
    unfolding src by (rule relpath_join[OF wd _ names]) simp
  have ok': "\<forall>c\<in>set (ds @ [stem @ ''.md'']). c \<noteq> [] \<and> CHR ''/'' \<notin> set c"
    using names by (auto simp: name_ok_def)
  have na: "\<not> prefix ''/'' ?rel"
    using sep_join_not_absolute[OF _ ok'] by simp
  have e: "?rel = sep_join (ds @ [stem]) @ ''.md''" by (rule sep_join_snoc_ext)
  have e': "sep_join (ds @ [stem @ ''.html'']) = sep_join (ds @ [stem]) @ ''.html''"
    by (rule sep_join_snoc_ext)
  have na': "\<not> prefix ''/'' (sep_join (ds @ [stem]) @ ''.html'')"
    using na unfolding e by (cases "sep_join (ds @ [stem])") auto
  have "path_join (output_path B) ?rel = path_join (output_path B) (sep_join (ds @ [stem])) @ ''.md''"
    unfolding e using na[unfolded e] by (intro path_join_ext) auto
  then have "re_sub_md_end (path_join (output_path B) ?rel)
               = path_join (output_path B) (sep_join (ds @ [stem])) @ ''.html''"
    by (simp only: re_sub_md_end_ext)
  moreover have o': "path_join (output_path B) (sep_join (ds @ [stem])) @ ''.html'' = output_filepath"
    unfolding out e' using na' by (intro path_join_ext[symmetric]) auto
  ultimately show o: "re_sub_md_end (path_join (output_path B) ?rel) = output_filepath"
    by (rule trans)
  have "CHR ''/'' \<in> set output_filepath"
    unfolding out e' using paths(1) na' by (rule path_join_has_sep)
  then have d: "dirname output_filepath \<noteq> []" by (rule dirname_not_empty)
  have b: "basename output_filepath \<notin> {[], ''.'', ''..''}"
    unfolding o'[symmetric] by (rule basename_html)
  assume html: "build_html B E st source_filepath = Inr html_document"
  obtain doc where doc: "replace_media_links B E html_document source_filepath output_filepath = Inr doc"
    using replace_media_links_eq[OF paths(2,3), of E source_filepath output_filepath] by metis
  have "build_file B E source_filepath st = write_file doc output_filepath st"
    using html lp o doc by (simp add: build_file_def Let_def)
  then have "build_file B E source_filepath st =
              (if list_ex (\<lambda>a. files st a \<noteq> None) (dirs_above (dirname output_filepath))
                 then Inl NotADirectoryError
               else if files st (dirname output_filepath) \<noteq> None then Inl FileExistsError
               else if output_filepath \<in> dirs st then Inl IsADirectoryError
               else Inr (st\<lparr>files := (files st)(output_filepath \<mapsto> doc),
                            dirs := dirs st
                              \<union> set (dirname output_filepath # dirs_above (dirname output_filepath)),
                            stdout := stdout st @ [''Created '' @ output_filepath]\<rparr>))"
    by (simp only: write_file_cases[OF d b])
  then show "\<exists>doc.
            replace_media_links B E html_document source_filepath output_filepath = Inr doc
          \<and> build_file B E source_filepath st =
              (if list_ex (\<lambda>a. files st a \<noteq> None) (dirs_above (dirname output_filepath))
                 then Inl NotADirectoryError
               else if files st (dirname output_filepath) \<noteq> None then Inl FileExistsError
               else if output_filepath \<in> dirs st then Inl IsADirectoryError
               else Inr (st\<lparr>files := (files st)(output_filepath \<mapsto> doc),
                            dirs := dirs st
                              \<union> set (dirname output_filepath # dirs_above (dirname output_filepath)),
                            stdout := stdout st @ [''Created '' @ output_filepath]\<rparr>))"
    using doc by blast
qed

lemma write_file_files:
  "write_file doc out st = Inr st' \<Longrightarrow> files st' = (files st)(out \<mapsto> doc)"
  using write_file_Inr by blast

lemma build_file_keeps_files:
  "build_file B E f st = Inr st' \<Longrightarrow> files st p \<noteq> None \<Longrightarrow> files st' p \<noteq> None"
  by (auto simp: build_file_def Let_def split: sum.splits dest!: write_file_files)

lemma build_files_loop_keeps_files:
  "build_files_loop B E fs st = Inr st' \<Longrightarrow> files st p \<noteq> None \<Longrightarrow> files st' p \<noteq> None"
proof (induction fs arbitrary: st)
  case Nil
  then show ?case by simp
next
  case (Cons f fs)
  show ?case
  proof (cases "basename f \<in> set (ignore_files B)")
    case True
    then show ?thesis using Cons by (simp add: print_def)
  next
    case False
    then obtain s where s: "build_file B E f st = Inr s" "build_files_loop B E fs s = Inr st'"
      using Cons.prems(1) by (auto split: sum.splits)
    show ?thesis
      using Cons.IH[OF s(2)] build_file_keeps_files[OF s(1)] Cons.prems(2) by blast
  qed
qed

lemma build_file_written:
  assumes "build_file B E f st = Inr s"
    and "relpath (cwd E) f (source_path B) = Inr rel"
    and "re_sub_md_end (path_join (output_path B) rel) = out"
  shows "files s out \<noteq> None \<and> ''Created '' @ out \<in> set (stdout s)"
proof -
  obtain doc where "write_file doc out st = Inr s"
    using assms by (auto simp: build_file_def Let_def split: sum.splits)
  from write_file_Inr[OF this] show ?thesis by simp
qed

lemma build_files_loop_writes:
  assumes wd: "prefix ''/'' (cwd E)"
    and names: "\<forall>c\<in>set (ds @ [stem @ ''.md'']). name_ok c"
    and src: "source_filepath = path_join (source_path B) (sep_join (ds @ [stem @ ''.md'']))"
    and out: "output_filepath = path_join (output_path B) (sep_join (ds @ [stem @ ''.html'']))"
    and paths: "output_path B \<noteq> []" "source_media_path B \<noteq> []" "output_media_path B \<noteq> []"
    and nign: "basename source_filepath \<notin> set (ignore_files B)"
  shows "build_files_loop B E fs st = Inr st' \<Longrightarrow> source_filepath \<in> set fs \<Longrightarrow>
         files st' output_filepath \<noteq> None \<and> ''Created '' @ output_filepath \<in> set (stdout st')"
proof (induction fs arbitrary: st)
  case Nil
  then show ?case by simp
next
  case (Cons g fs)
  show ?case
  proof (cases "basename g \<in> set (ignore_files B)")
    case True
    then have "g \<noteq> source_filepath" using nign by auto
    then show ?thesis using True Cons by simp
  next
    case False
    then obtain s where s: "build_file B E g st = Inr s" "build_files_loop B E fs s = Inr st'"
      using Cons.prems(1) by (auto split: sum.splits)
    show ?thesis
    proof (cases "g = source_filepath")
      case True
      have "files s output_filepath \<noteq> None \<and> ''Created '' @ output_filepath \<in> set (stdout s)"
        using s(1) build_file_result(1,2)[OF wd names src out paths] unfolding True
        by (rule build_file_written)
      then show ?thesis
        using build_files_loop_keeps_files[OF s(2)] build_files_loop_stdout[OF s(2)] by blast
    next
      case False
      then show ?thesis using Cons.IH[OF s(2)] Cons.prems(2) by simp
    qed
  qed
qed

text \<open>
  C5. A source file at the relative path \<^verbatim>\<open>ds/stem.md\<close> below the source path (as
  \<^verbatim>\<open>iglob\<close> yields it: the source path joined with names of a directory listing) has
  that relative path, and the output path the code computes from it, by joining and
  replacing the final \<^verbatim>\<open>.md\<close>, is \<^verbatim>\<open>ds/stem.html\<close> below the output path. The working
  directory is absolute, and the output path and the media paths are not empty.

  When the HTML of the file builds, in a state that is a file system at every path it
  lists, and that lists the output path and the directories above it under no other
  spelling, \<^const>\<open>build_file\<close> does what the file system allows. It raises
  \<^verbatim>\<open>NotADirectoryError\<close> when a regular file stands above the directory of the output
  path, \<^verbatim>\<open>FileExistsError\<close> when a regular file stands at that directory, and
  \<^verbatim>\<open>IsADirectoryError\<close> when the output path is a directory. In every other state it
  succeeds: it writes the document, its media links rewritten, at the output path and no
  other file, leaves the directory of the output path and the directories above it as
  directories, and reports the file it created.

  When the loop over the files found returns, every such file that is not ignored has a
  file at its output path, reported as created.
\<close>

theorem build_file_mirrors_source_path:
  assumes wd: "prefix ''/'' (cwd E)"
    and names: "\<forall>c\<in>set (ds @ [stem @ ''.md'']). name_ok c"
    and src: "source_filepath = path_join (source_path B) (sep_join (ds @ [stem @ ''.md'']))"
    and out: "output_filepath = path_join (output_path B) (sep_join (ds @ [stem @ ''.html'']))"
    and paths: "output_path B \<noteq> []" "source_media_path B \<noteq> []" "output_media_path B \<noteq> []"
  shows "relpath (cwd E) source_filepath (source_path B) = Inr (sep_join (ds @ [stem @ ''.md'']))
    \<and> re_sub_md_end (path_join (output_path B) (sep_join (ds @ [stem @ ''.md''])))
         = output_filepath
    \<and> (\<forall>st html_document.
          build_html B E st source_filepath = Inr html_document \<longrightarrow>
          (\<forall>p. files st p \<noteq> None \<or> p \<in> dirs st \<longrightarrow>
                tree_ok st p
              \<and> list_all (\<lambda>a. same_place E p a \<longrightarrow> p = a)
                  (output_filepath # dirs_above output_filepath)) \<longrightarrow>
          (\<exists>doc.
              replace_media_links B E html_document source_filepath output_filepath = Inr doc
            \<and> build_file B E source_filepath st =
                (if list_ex (\<lambda>a. files st a \<noteq> None) (dirs_above (dirname output_filepath))
                   then Inl NotADirectoryError
                 else if files st (dirname output_filepath) \<noteq> None then Inl FileExistsError
                 else if output_filepath \<in> dirs st then Inl IsADirectoryError
                 else Inr (st\<lparr>files := (files st)(output_filepath \<mapsto> doc),
                              dirs := dirs st
                                \<union> set (dirname output_filepath
                                       # dirs_above (dirname output_filepath)),
                              stdout := stdout st @ [''Created '' @ output_filepath]\<rparr>))))
    \<and> (\<forall>fs st st'. build_files_loop B E fs st = Inr st' \<longrightarrow> source_filepath \<in> set fs \<longrightarrow>
          basename source_filepath \<notin> set (ignore_files B) \<longrightarrow>
          files st' output_filepath \<noteq> None
          \<and> ''Created '' @ output_filepath \<in> set (stdout st'))"
proof (intro conjI allI impI)
  show "relpath (cwd E) source_filepath (source_path B) = Inr (sep_join (ds @ [stem @ ''.md'']))"
    by (rule build_file_result(1)[OF assms])
  show "re_sub_md_end (path_join (output_path B) (sep_join (ds @ [stem @ ''.md''])))
         = output_filepath"
    by (rule build_file_result(2)[OF assms])
next
  fix st html_document
  assume "build_html B E st source_filepath = Inr html_document"
  then show "\<exists>doc.
              replace_media_links B E html_document source_filepath output_filepath = Inr doc
            \<and> build_file B E source_filepath st =
                (if list_ex (\<lambda>a. files st a \<noteq> None) (dirs_above (dirname output_filepath))
                   then Inl NotADirectoryError
                 else if files st (dirname output_filepath) \<noteq> None then Inl FileExistsError
                 else if output_filepath \<in> dirs st then Inl IsADirectoryError
                 else Inr (st\<lparr>files := (files st)(output_filepath \<mapsto> doc),
                              dirs := dirs st
                                \<union> set (dirname output_filepath
                                       # dirs_above (dirname output_filepath)),
                              stdout := stdout st @ [''Created '' @ output_filepath]\<rparr>))"
    by (rule build_file_result(3)[OF assms])
next
  fix fs st st'
  assume "build_files_loop B E fs st = Inr st'" "source_filepath \<in> set fs"
    "basename source_filepath \<notin> set (ignore_files B)"
  from build_files_loop_writes[OF assms this(3,1,2)]
  show "files st' output_filepath \<noteq> None" "''Created '' @ output_filepath \<in> set (stdout st')"
    by simp_all
qed

theorem build_file_mirrors_source_path_witness:
  "prefix ''/'' (cwd example_env)
   \<and> list_all name_ok ([''ab''] @ [''page'' @ ''.md''])
   \<and> ''docs/ab/page.md'' = path_join (source_path example_builder) (sep_join ([''ab''] @ [''page'' @ ''.md'']))
   \<and> ''build/ab/page.html'' = path_join (output_path example_builder) (sep_join ([''ab''] @ [''page'' @ ''.html'']))
   \<and> build_html example_builder example_env example_fs ''docs/ab/page.md''
       = Inr ''<html><p>see ../media/logo.png</p></html>''
   \<and> list_all (\<lambda>p. tree_ok example_fs p
                   \<and> list_all (\<lambda>a. same_place example_env p a \<longrightarrow> p = a)
                       (''build/ab/page.html'' # dirs_above ''build/ab/page.html''))
       [''docs/README.md'', ''docs/ab/page.md'', ''docs/context.yaml'', ''docs/a/context.yaml'',
        ''docs/media/logo.png'', ''docs'', ''docs/a'', ''docs/ab'', ''docs/media'']
   \<and> relpath (cwd example_env) ''docs/ab/page.md'' (source_path example_builder) = Inr ''ab/page.md''
   \<and> map_sum id (\<lambda>st'. (files st' ''build/ab/page.html'', stdout st',
                          ''build'' \<in> dirs st' \<and> ''build/ab'' \<in> dirs st'))
         (build_file example_builder example_env ''docs/ab/page.md'' example_fs)
       = Inr (Some ''<html><p>see ../static/logo.png</p></html>'', [''Created build/ab/page.html''],
              True)"
proof -
  have h: "prefix ''/'' (cwd example_env)"
    "\<forall>c\<in>set ([''ab''] @ [''page'' @ ''.md'']). name_ok c"
    "''docs/ab/page.md'' = path_join (source_path example_builder) (sep_join ([''ab''] @ [''page'' @ ''.md'']))"
    "''build/ab/page.html'' = path_join (output_path example_builder) (sep_join ([''ab''] @ [''page'' @ ''.html'']))"
    "output_path example_builder \<noteq> []" "source_media_path example_builder \<noteq> []"
    "output_media_path example_builder \<noteq> []"
    by code_simp+
  have k: "list_all (\<lambda>p. tree_ok example_fs p
                   \<and> list_all (\<lambda>a. same_place example_env p a \<longrightarrow> p = a)
                       (''build/ab/page.html'' # dirs_above ''build/ab/page.html''))
       [''docs/README.md'', ''docs/ab/page.md'', ''docs/context.yaml'', ''docs/a/context.yaml'',
        ''docs/media/logo.png'', ''docs'', ''docs/a'', ''docs/ab'', ''docs/media'']"
    by code_simp
  have l: "p \<in> set [''docs/README.md'', ''docs/ab/page.md'', ''docs/context.yaml'',
        ''docs/a/context.yaml'', ''docs/media/logo.png'', ''docs'', ''docs/a'', ''docs/ab'',
        ''docs/media'']"
    if "files example_fs p \<noteq> None \<or> p \<in> dirs example_fs" for p
    using that by (simp add: example_fs_def split: if_splits)
  have w: "\<forall>p. files example_fs p \<noteq> None \<or> p \<in> dirs example_fs \<longrightarrow>
                tree_ok example_fs p
              \<and> list_all (\<lambda>a. same_place example_env p a \<longrightarrow> p = a)
                  (''build/ab/page.html'' # dirs_above ''build/ab/page.html'')"
    using k l unfolding list_all_iff by blast
  have c: "\<not> list_ex (\<lambda>a. files example_fs a \<noteq> None) (dirs_above (dirname ''build/ab/page.html''))"
    "files example_fs (dirname ''build/ab/page.html'') = None"
    "''build/ab/page.html'' \<notin> dirs example_fs"
    "set (dirname ''build/ab/page.html'' # dirs_above (dirname ''build/ab/page.html''))
       = {''build/ab'', ''build''}"
    by code_simp+
  note t = build_file_mirrors_source_path[OF h]
  from t have r: "relpath (cwd example_env) ''docs/ab/page.md'' (source_path example_builder)
                    = Inr ''ab/page.md''"
    by simp
  from t example_build_html w obtain doc where
    "replace_media_links example_builder example_env ''<html><p>see ../media/logo.png</p></html>''
       ''docs/ab/page.md'' ''build/ab/page.html'' = Inr doc"
    "build_file example_builder example_env ''docs/ab/page.md'' example_fs =
       (if list_ex (\<lambda>a. files example_fs a \<noteq> None) (dirs_above (dirname ''build/ab/page.html''))
          then Inl NotADirectoryError
        else if files example_fs (dirname ''build/ab/page.html'') \<noteq> None then Inl FileExistsError
        else if ''build/ab/page.html'' \<in> dirs example_fs then Inl IsADirectoryError
        else Inr (example_fs\<lparr>files := (files example_fs)(''build/ab/page.html'' \<mapsto> doc),
                     dirs := dirs example_fs
                       \<union> set (dirname ''build/ab/page.html''
                              # dirs_above (dirname ''build/ab/page.html'')),
                     stdout := stdout example_fs @ [''Created '' @ ''build/ab/page.html'']\<rparr>))"
    by blast
  then have "map_sum id (\<lambda>st'. (files st' ''build/ab/page.html'', stdout st',
                          ''build'' \<in> dirs st' \<and> ''build/ab'' \<in> dirs st'))
         (build_file example_builder example_env ''docs/ab/page.md'' example_fs)
       = Inr (Some ''<html><p>see ../static/logo.png</p></html>'', [''Created build/ab/page.html''],
              True)"
    using c by (simp add: example_replace_media_links example_fs_def)
  then show ?thesis using h k r example_build_html by (simp add: list_all_iff)
qed

subsection \<open>Media files\<close>

lemma mergetree_copies:
  "files st (src @ ''/'' @ rel) = Some text \<Longrightarrow>
   files (mergetree src dst st) (dst @ ''/'' @ rel) = Some text"
  by (simp add: mergetree_def)

lemma mergetree_keeps:
  "\<not> (\<exists>rel. p = dst @ ''/'' @ rel \<and> files st (src @ ''/'' @ rel) \<noteq> None) \<Longrightarrow>
   files (mergetree src dst st) p = files st p"
proof -
  assume a: "\<not> (\<exists>rel. p = dst @ ''/'' @ rel \<and> files st (src @ ''/'' @ rel) \<noteq> None)"
  show ?thesis
  proof (cases "prefix (dst @ ''/'') p")
    case True
    then obtain rel where p: "p = dst @ ''/'' @ rel" by (auto simp: prefix_def)
    then have "files st (src @ ''/'' @ rel) = None" using a by blast
    then show ?thesis using p by (simp add: mergetree_def)
  next
    case False
    then show ?thesis by (simp add: mergetree_def)
  qed
qed

text \<open>
  C9. With an absolute working directory, \<^const>\<open>copy_media\<close> never fails. It merges the
  source media directory into the output media directory and reports the copy exactly
  when the source media directory exists and the two paths do not name the same
  directory (the same names from the root, once made absolute and normalised); when
  they name the same directory it does nothing; when the source media directory does
  not exist it prints a warning to the error stream, changes nothing else, and the build
  goes on with the files. The merge writes every file below the source directory at
  the same relative path below the output directory and leaves every other file as it
  was.
\<close>

theorem copy_media_when_and_what:
  assumes "prefix ''/'' (cwd E)"
  shows "copy_media B E st =
           Inr (if isdir st (source_media_path B)
                then if path_list (cwd E) (source_media_path B)
                          = path_list (cwd E) (output_media_path B)
                     then st
                     else print (''Copied '' @ source_media_path B @ '' to '' @ output_media_path B)
                            (mergetree (source_media_path B) (output_media_path B) st)
                else print_err (''Warning: Media directory not found at ''
                                 @ source_media_path B @ ''.'') st)
       \<and> (\<forall>rel text. files st (source_media_path B @ ''/'' @ rel) = Some text \<longrightarrow>
             files (mergetree (source_media_path B) (output_media_path B) st)
               (output_media_path B @ ''/'' @ rel) = Some text)
       \<and> (\<forall>p. \<not> (\<exists>rel. p = output_media_path B @ ''/'' @ rel
                        \<and> files st (source_media_path B @ ''/'' @ rel) \<noteq> None) \<longrightarrow>
             files (mergetree (source_media_path B) (output_media_path B) st) p = files st p)
       \<and> (\<not> isdir st (source_media_path B) \<longrightarrow>
             build B E st
               = build_files B E (print_err (''Warning: Media directory not found at ''
                                              @ source_media_path B @ ''.'') st))"
proof -
  have 1: "copy_media B E st =
           Inr (if isdir st (source_media_path B)
                then if path_list (cwd E) (source_media_path B)
                          = path_list (cwd E) (output_media_path B)
                     then st
                     else print (''Copied '' @ source_media_path B @ '' to '' @ output_media_path B)
                            (mergetree (source_media_path B) (output_media_path B) st)
                else print_err (''Warning: Media directory not found at ''
                                 @ source_media_path B @ ''.'') st)"
  proof (cases "isdir st (source_media_path B)")
    case True
    then have ne: "source_media_path B \<noteq> []" by (simp add: isdir_def)
    obtain r where r: "relpath (cwd E) (source_media_path B) (output_media_path B) = Inr r"
      using relpath_Inr[OF ne] by blast
    have "r = ''.'' \<longleftrightarrow> path_list (cwd E) (source_media_path B)
                          = path_list (cwd E) (output_media_path B)"
      using relpath_dot_iff[OF assms ne, of "output_media_path B"] r by simp
    then show ?thesis using True r by (simp add: copy_media_def Let_def)
  next
    case False
    then show ?thesis by (simp add: copy_media_def)
  qed
  have 4: "build B E st
               = build_files B E (print_err (''Warning: Media directory not found at ''
                                              @ source_media_path B @ ''.'') st)"
    if "\<not> isdir st (source_media_path B)"
    using that by (simp add: build_def copy_media_def)
  show ?thesis using 1 4 mergetree_copies mergetree_keeps by blast
qed

theorem copy_media_when_and_what_witness:
  "prefix ''/'' (cwd example_env)
   \<and> isdir example_fs (source_media_path example_builder)
   \<and> path_list (cwd example_env) (source_media_path example_builder)
       \<noteq> path_list (cwd example_env) (output_media_path example_builder)
   \<and> files example_fs (source_media_path example_builder @ ''/'' @ ''logo.png'') = Some ''PNG''
   \<and> map_sum id (\<lambda>st'. (files st' ''build/static/logo.png'', files st' ''docs/README.md'', stdout st'))
         (copy_media example_builder example_env example_fs)
       = Inr (Some ''PNG'', Some ''readme'', [''Copied docs/media to build/static''])
   \<and> map_sum id stderr (copy_media example_builder example_env (example_fs\<lparr>dirs := {}\<rparr>))
       = Inr [''Warning: Media directory not found at docs/media.'']"
proof -
  have h: "prefix ''/'' (cwd example_env)" by (simp add: example_env_def)
  have a: "isdir example_fs (source_media_path example_builder)"
    "path_list (cwd example_env) (source_media_path example_builder)
       \<noteq> path_list (cwd example_env) (output_media_path example_builder)"
    "files example_fs (source_media_path example_builder @ ''/'' @ ''logo.png'') = Some ''PNG''"
    "\<not> isdir (example_fs\<lparr>dirs := {}\<rparr>) (source_media_path example_builder)"
    by code_simp+
  have m: "files (mergetree (source_media_path example_builder) (output_media_path example_builder)
                    example_fs) ''docs/README.md'' = Some ''readme''"
    "output_media_path example_builder @ ''/'' @ ''logo.png'' = ''build/static/logo.png''"
    by code_simp+
  show ?thesis
    using a h m copy_media_when_and_what[OF h, of example_builder example_fs]
      copy_media_when_and_what[OF h, of example_builder "example_fs\<lparr>dirs := {}\<rparr>"]
    by (simp add: print_def print_err_def mergetree_def example_builder_def example_fs_def)
qed

end
